theory Spec2Isabelle
  imports Main
begin

section \<open>JavaScript values used by the extractor\<close>

text \<open>
  Strings are modelled as \<open>string\<close> (Latin-1 text). \<open>null\<close> and \<open>undefined\<close> are both
  \<open>None\<close> where a field is optional.
\<close>

text \<open>A JavaScript number as the rank fields hold it: an integer, or \<open>NaN\<close>.\<close>

datatype number = Num int | NaN

text \<open>
  What a function throws, or a promise rejects with: an \<open>Error\<close> object carrying its
  message, or any other value (another object, \<open>undefined\<close>, \<open>null\<close>, a string, a number
  or a boolean). A function that may throw returns \<open>error + 'a\<close>.
\<close>

datatype error =
    Error string
  | Thrown_object
  | Thrown_undefined
  | Thrown_null
  | Thrown_string string
  | Thrown_number number
  | Thrown_bool bool

text \<open>Truthiness of a thrown value, as \<open>lastError || ...\<close> tests it: an object is truthy.\<close>

fun truthy_error :: "error \<Rightarrow> bool" where
  "truthy_error (Error m) = True"
| "truthy_error Thrown_object = True"
| "truthy_error Thrown_undefined = False"
| "truthy_error Thrown_null = False"
| "truthy_error (Thrown_string s) = (s \<noteq> [])"
| "truthy_error (Thrown_number NaN) = False"
| "truthy_error (Thrown_number (Num n)) = (n \<noteq> 0)"
| "truthy_error (Thrown_bool b) = b"

text \<open>\<open>error instanceof Error ? error.message : "Unknown error"\<close>.\<close>

fun error_text :: "error \<Rightarrow> string" where
  "error_text (Error m) = m"
| "error_text e = ''Unknown error''"

definition truthy_string :: "string option \<Rightarrow> bool" where
  "truthy_string v = (case v of None \<Rightarrow> False | Some s \<Rightarrow> s \<noteq> [])"

definition truthy_number :: "number option \<Rightarrow> bool" where
  "truthy_number v = (case v of None \<Rightarrow> False | Some NaN \<Rightarrow> False | Some (Num n) \<Rightarrow> n \<noteq> 0)"

text \<open>\<open>x || null\<close>: the operand when it is truthy, else \<open>null\<close>.\<close>

definition or_null_string :: "string option \<Rightarrow> string option" where
  "or_null_string v = (if truthy_string v then v else None)"

definition or_null_number :: "number option \<Rightarrow> number option" where
  "or_null_number v = (if truthy_number v then v else None)"

text \<open>
  \<open>String.prototype.trim\<close>: white space and line terminators are removed at both ends
  (tab, LF, VT, FF, CR, space and no-break space are the ones in Latin-1).
\<close>

definition is_space :: "char \<Rightarrow> bool" where
  "is_space c = (c \<in> set [CHR 0x09, CHR 0x0A, CHR 0x0B, CHR 0x0C, CHR 0x0D, CHR '' '', CHR 0xA0])"

definition trim :: "string \<Rightarrow> string" where
  "trim s = rev (dropWhile is_space (rev (dropWhile is_space s)))"

text \<open>
  A (non-global) \<open>RegExp\<close> is taken by what \<open>text.match(pattern)\<close> returns: \<open>None\<close> for
  \<open>null\<close>, otherwise the match array, whose entry 0 is the whole match and whose entry
  \<open>i\<close> is capture group \<open>i\<close> (\<open>None\<close> for a group that did not take part).
\<close>

type_synonym RegExp = "string \<Rightarrow> string option list option"

text \<open>\<open>match[group]\<close>: reading past the end of the array gives \<open>undefined\<close>.\<close>

definition group_at :: "string option list \<Rightarrow> nat \<Rightarrow> string option" where
  "group_at m g = (if g < length m then m ! g else None)"


section \<open>Ordered pattern chains (\<open>matchFirst\<close>)\<close>

fun matchFirst :: "string \<Rightarrow> RegExp list \<Rightarrow> nat \<Rightarrow> string option" where
  "matchFirst text [] grp = None"
| "matchFirst text (pattern # patterns) grp =
     (case pattern text of
        None \<Rightarrow> matchFirst text patterns grp
      | Some m \<Rightarrow>
          (if truthy_string (group_at m grp) then map_option trim (group_at m grp)
           else matchFirst text patterns grp))"

text \<open>
  What one pattern contributes on its own: its designated capture group, when the match
  succeeds and the group is non-empty.
\<close>

definition capture :: "RegExp \<Rightarrow> string \<Rightarrow> nat \<Rightarrow> string option" where
  "capture pattern text grp =
     (case pattern text of
        None \<Rightarrow> None
      | Some m \<Rightarrow> (if truthy_string (group_at m grp) then group_at m grp else None))"

text \<open>
  A concrete pattern for evaluation: \<open>/label(\d+)/\<close> for a literal \<open>label\<close>, the
  leftmost occurrence of the label that is followed by a digit, with the longest run of
  digits as group 1.
\<close>

definition is_digit :: "char \<Rightarrow> bool" where
  "is_digit c = (c \<in> set ''0123456789'')"

fun digits_after :: "string \<Rightarrow> RegExp" where
  "digits_after label [] = None"
| "digits_after label (c # cs) =
     (let ds = takeWhile is_digit (drop (length label) (c # cs)) in
      if take (length label) (c # cs) = label \<and> ds \<noteq> []
      then Some [Some (label @ ds), Some ds]
      else digits_after label cs)"


section \<open>Retry with exponential backoff\<close>

text \<open>
  The operation \<open>fn\<close> and the timer are effects on a state \<open>'s\<close>: \<open>fn\<close> returns its outcome
  and the new state, \<open>sleep d\<close> waits \<open>d\<close> milliseconds. The loop counter \<open>attempt\<close> and
  \<open>lastError\<close> are the locals of the source; \<open>maxRetries\<close> and \<open>initialDelay\<close> are
  integers. After the loop,
  \<open>throw lastError || new Error('Max retries exceeded')\<close> throws \<open>lastError\<close> when it is
  truthy, and the new error when it is \<open>null\<close> or any other falsy value.
\<close>

definition or_max_retries :: "error option \<Rightarrow> error" where
  "or_max_retries lastError =
     (case lastError of
        Some e \<Rightarrow> (if truthy_error e then e else Error ''Max retries exceeded'')
      | None \<Rightarrow> Error ''Max retries exceeded'')"

function retry_loop ::
  "('s \<Rightarrow> (error + 'a) \<times> 's) \<Rightarrow> (int \<Rightarrow> 's \<Rightarrow> 's) \<Rightarrow> int \<Rightarrow> int \<Rightarrow> int \<Rightarrow> error option \<Rightarrow> 's
     \<Rightarrow> (error + 'a) \<times> 's" where
  "retry_loop fn sleep maxRetries initialDelay attempt lastError s =
     (if attempt < maxRetries then
        (case fn s of
           (Inr v, s') \<Rightarrow> (Inr v, s')
         | (Inl e, s') \<Rightarrow>
             retry_loop fn sleep maxRetries initialDelay (attempt + 1) (Some e)
               (if attempt < maxRetries - 1
                then sleep (initialDelay * 2 ^ nat attempt) s' else s'))
      else (Inl (or_max_retries lastError), s))"
  by pat_completeness auto
termination
  by (relation "measure (\<lambda>(fn, sleep, maxRetries, initialDelay, attempt, lastError, s).
        nat (maxRetries - attempt))") auto

declare retry_loop.simps [simp del]

definition retryWithBackoff ::
  "('s \<Rightarrow> (error + 'a) \<times> 's) \<Rightarrow> (int \<Rightarrow> 's \<Rightarrow> 's) \<Rightarrow> int \<Rightarrow> int \<Rightarrow> 's \<Rightarrow> (error + 'a) \<times> 's" where
  "retryWithBackoff fn sleep maxRetries initialDelay s =
     retry_loop fn sleep maxRetries initialDelay 0 None s"

text \<open>
  Instrumentation for statements about invocations and waits: the state is paired with
  one log, in order of occurrence, of the invocations of \<open>fn\<close> (with their outcomes) and of
  the waits (with their delays).
\<close>

datatype 'a event = Invoked "error + 'a" | Waited int

type_synonym ('s, 'a) observed = "'s \<times> 'a event list"

definition observe ::
  "('s \<Rightarrow> (error + 'a) \<times> 's) \<Rightarrow> ('s, 'a) observed \<Rightarrow> (error + 'a) \<times> ('s, 'a) observed" where
  "observe fn = (\<lambda>(s, log). case fn s of (r, s') \<Rightarrow> (r, (s', log @ [Invoked r])))"

definition observe_sleep :: "int \<Rightarrow> ('s, 'a) observed \<Rightarrow> ('s, 'a) observed" where
  "observe_sleep d = (\<lambda>(s, log). (s, log @ [Waited d]))"

text \<open>The outcomes of the invocations in a log, in order.\<close>

fun invocations :: "'a event list \<Rightarrow> (error + 'a) list" where
  "invocations [] = []"
| "invocations (Invoked r # es) = r # invocations es"
| "invocations (Waited d # es) = invocations es"

text \<open>
  The log of a backoff schedule: the invocations with the given outcomes, and between the
  invocation of index \<open>i\<close> and the next one a wait of \<open>d * 2^i\<close>; no wait after the last.
\<close>

fun schedule :: "int \<Rightarrow> nat \<Rightarrow> (error + 'a) list \<Rightarrow> 'a event list" where
  "schedule d i [] = []"
| "schedule d i [r] = [Invoked r]"
| "schedule d i (r # r' # rs) = Invoked r # Waited (d * 2 ^ i) # schedule d (Suc i) (r' # rs)"

text \<open>What the caller gets for a last outcome: a success, or the failure as it is thrown.\<close>

definition surfaced :: "error + 'a \<Rightarrow> error + 'a" where
  "surfaced r = (case r of Inr v \<Rightarrow> Inr v | Inl e \<Rightarrow> Inl (or_max_retries (Some e)))"

text \<open>
  Operations for evaluation: one fails on its first two invocations, then succeeds; one
  always rejects with \<open>undefined\<close>.
\<close>

definition flaky :: "nat \<Rightarrow> (error + string) \<times> nat" where
  "flaky n = (if n < 2 then Inl (Error ''Timeout 30000ms exceeded'') else Inr ''rendered'', Suc n)"

definition rejects_undefined :: "nat \<Rightarrow> (error + string) \<times> nat" where
  "rejects_undefined n = (Inl Thrown_undefined, Suc n)"

section \<open>Extraction results and platform detection\<close>

text \<open>
  \<open>Extracted\<close> is \<open>Partial<RaceResultData>\<close>, what a platform's extraction logic returns;
  \<open>RaceResultData\<close> adds the platform name.
\<close>

record Extracted =
  name :: "string option"
  category :: "string option"
  finishTime :: "string option"
  bibNumber :: "string option"
  rankOverall :: "number option"
  rankCategory :: "number option"
  pace :: "string option"

record RaceResultData = Extracted +
  platform :: string

text \<open>The \<open>return\<close> statement of \<open>extractRaceResults\<close>: every field passes through \<open>|| null\<close>.\<close>

definition coerce_result :: "string \<Rightarrow> Extracted \<Rightarrow> RaceResultData" where
  "coerce_result parser_name result =
     \<lparr> name = or_null_string (name result),
       category = or_null_string (category result),
       finishTime = or_null_string (finishTime result),
       bibNumber = or_null_string (bibNumber result),
       rankOverall = or_null_number (rankOverall result),
       rankCategory = or_null_number (rankCategory result),
       pace = or_null_string (pace result),
       platform = parser_name \<rparr>"

text \<open>
  A \<open>ParserConfig\<close> is its name and its URL pattern (as the test \<open>urlPattern.test(url)\<close>);
  its extraction logic runs in the browser and is part of the environment below.
\<close>

record ParserConfig =
  parser_name :: string
  urlPattern :: "string \<Rightarrow> bool"

definition to_lower :: "char \<Rightarrow> char" where
  "to_lower c =
     (case map_of (zip ''ABCDEFGHIJKLMNOPQRSTUVWXYZ'' ''abcdefghijklmnopqrstuvwxyz'') c of
        Some l \<Rightarrow> l | None \<Rightarrow> c)"

fun contains :: "string \<Rightarrow> string \<Rightarrow> bool" where
  "contains needle [] = (needle = [])"
| "contains needle (c # cs) = (take (length needle) (c # cs) = needle \<or> contains needle cs)"

text \<open>
  The registry of \<open>src/server/parser.ts\<close>, in registration order. Its one pattern is
  \<open>/sportstimingsolutions\.in/i\<close>: the literal occurs somewhere, letters in either case.
\<close>

definition PARSERS :: "ParserConfig list" where
  "PARSERS =
     [\<lparr> parser_name = ''Sports Timing Solutions'',
        urlPattern = (\<lambda>url. contains ''sportstimingsolutions.in'' (map to_lower url)) \<rparr>]"

definition detectPlatform :: "string \<Rightarrow> ParserConfig option" where
  "detectPlatform url = find (\<lambda>parser. urlPattern parser url) PARSERS"


section \<open>URLs\<close>

text \<open>
  \<open>new URL(url)\<close> is the platform's parser and is taken from the environment below; it
  gives the URL record of the URL standard or fails. \<open>href\<close> is the standard's serialiser.
\<close>

record URL =
  url_scheme :: string
  url_username :: string
  url_password :: string
  url_host :: "string option"
  url_port :: "nat option"
  url_path :: string
  url_query :: "string option"
  url_fragment :: "string option"

fun show_nat :: "nat \<Rightarrow> string" where
  "show_nat n =
     (if n < 10 then [''0123456789'' ! n]
      else show_nat (n div 10) @ [''0123456789'' ! (n mod 10)])"

declare show_nat.simps [simp del]

definition href :: "URL \<Rightarrow> string" where
  "href u =
     url_scheme u @ '':'' @
     (case url_host u of
        Some h \<Rightarrow>
          ''//'' @
          (if url_username u = [] \<and> url_password u = [] then []
           else url_username u @
                (if url_password u = [] then [] else '':'' @ url_password u) @ ''@'') @
          h @ (case url_port u of None \<Rightarrow> [] | Some p \<Rightarrow> '':'' @ show_nat p)
      | None \<Rightarrow> (if take 2 (url_path u) = ''//'' then ''/.'' else [])) @
     url_path u @
     (case url_query u of None \<Rightarrow> [] | Some q \<Rightarrow> ''?'' @ q) @
     (case url_fragment u of None \<Rightarrow> [] | Some f \<Rightarrow> ''#'' @ f)"

text \<open>
  The parts a canonical form made of scheme, host, path and query would keep.
\<close>

definition canonical_parts :: "URL \<Rightarrow> string \<times> string option \<times> string \<times> string option" where
  "canonical_parts u = (url_scheme u, url_host u, url_path u, url_query u)"


section \<open>Persistent state\<close>

datatype JobStatus = Queued | Processing | Completed | Failed

datatype ResultStatus = ResultCompleted | ResultPending | ResultError

text \<open>Times are milliseconds. Column \<open>id\<close> of both tables is \<open>rowId\<close> here.\<close>

record ProcessingJob =
  rowId :: nat
  jobId :: string
  totalUrls :: nat
  processedUrls :: nat
  successCount :: nat
  errorCount :: nat
  status :: JobStatus
  userId :: nat
  createdAt :: int
  completedAt :: "int option"

record RaceResult =
  r_id :: nat
  r_url :: string
  r_urlHash :: string
  r_jobId :: "string option"
  r_raceName :: "string option"
  r_name :: "string option"
  r_category :: "string option"
  r_finishTime :: "string option"
  r_bibNumber :: "string option"
  r_rankOverall :: "number option"
  r_rankCategory :: "number option"
  r_pace :: "string option"
  r_platform :: "string option"
  r_status :: ResultStatus
  r_errorMessage :: "string option"
  r_extractedAt :: int
  r_cachedAt :: int
  r_expiresAt :: int
  r_userId :: nat

text \<open>The \<open>updates\<close> argument of \<open>updateProcessingJob\<close>: only the fields present are set.\<close>

record JobUpdate =
  u_processedUrls :: "nat option"
  u_successCount :: "nat option"
  u_errorCount :: "nat option"
  u_status :: "JobStatus option"
  u_completedAt :: "int option"

record database =
  processingJobs :: "ProcessingJob list"
  raceResults :: "RaceResult list"

text \<open>
  The world a request runs in. \<open>db\<close> is \<open>None\<close> when no database is configured (\<open>getDb\<close>
  returns \<open>null\<close>). \<open>snapshots\<close> records the database after every write, in order: these
  are the states a poll can observe. \<open>attempts\<close> logs the invocations of
  \<open>extractRaceResults\<close>, \<open>launches\<close> counts browser sessions, \<open>sleeps\<close> logs the waits,
  \<open>refusals\<close> counts the calls the store has rejected.
\<close>

record world =
  db :: "database option"
  snapshots :: "database list"
  clock :: int
  attempts :: "string list"
  launches :: nat
  sleeps :: "int list"
  refusals :: nat

text \<open>A call to the store, as the store sees it.\<close>

datatype request =
    CreateJob string
  | UpdateJob string JobUpdate
  | InsertResult RaceResult
  | LookupCache string nat


section \<open>The environment\<close>

text \<open>
  The environment: the URL parser, SHA-256 (as the hex digest of a string), the URL check
  of the request validator (\<open>z.string().url()\<close>), the browser, the local calendar and the
  faults of the store. \<open>browse p url k\<close> is the \<open>k\<close>-th browser session of the run: loading
  \<open>url\<close> and running the extraction logic of platform \<open>p\<close> on the page; it gives the time
  taken and the fields or the value thrown. \<open>plus_24_hours t\<close> is the instant that
  \<open>setHours(getHours() + 24)\<close> gives for a \<open>Date\<close> of instant \<open>t\<close> in the local time zone.
  \<open>store_refuses w req\<close> is the value the store rejects the call \<open>req\<close> with, made in the
  world \<open>w\<close>, or \<open>None\<close> when it carries the call out.
\<close>

record env =
  url_parse :: "string \<Rightarrow> URL option"
  sha256_hex :: "string \<Rightarrow> string"
  zod_url :: "string \<Rightarrow> bool"
  browse :: "string \<Rightarrow> string \<Rightarrow> nat \<Rightarrow> int \<times> (error + Extracted)"
  plus_24_hours :: "int \<Rightarrow> int"
  store_refuses :: "world \<Rightarrow> request \<Rightarrow> error option"

definition normalizeUrl :: "env \<Rightarrow> string \<Rightarrow> error + string" where
  "normalizeUrl env url =
     (case url_parse env url of
        Some parsed \<Rightarrow> Inr (href parsed)
      | None \<Rightarrow> Inl (Error (''Invalid URL: '' @ url)))"

definition hashUrl :: "env \<Rightarrow> string \<Rightarrow> string" where
  "hashUrl env url = sha256_hex env url"

text \<open>The store carries out every call.\<close>

definition reliable :: "env \<Rightarrow> bool" where
  "reliable env = (\<forall>w req. store_refuses env w req = None)"


section \<open>Operations on the store\<close>

text \<open>
  Each helper of \<open>db.ts\<close> is given by its effect when the store carries the call out
  (\<open>getCachedResult\<close>, \<open>insertRaceResult\<close>, \<open>updateProcessingJob\<close>, \<open>createProcessingJob\<close>)
  and by the awaited call (\<open>await_\<close>...), which may reject instead. Without a database the
  helpers return before they reach the store.
\<close>

definition store_call :: "env \<Rightarrow> request \<Rightarrow> world \<Rightarrow> error option" where
  "store_call env req w = (case db w of None \<Rightarrow> None | Some d \<Rightarrow> store_refuses env w req)"

definition refused :: "world \<Rightarrow> world" where
  "refused w = w\<lparr> refusals := Suc (refusals w) \<rparr>"

definition commit :: "database \<Rightarrow> world \<Rightarrow> world" where
  "commit d w = w\<lparr> db := Some d, snapshots := snapshots w @ [d] \<rparr>"

text \<open>\<open>limit(1)\<close>: of the rows that qualify, the first in table order is returned.\<close>

definition getCachedResult :: "database option \<Rightarrow> string \<Rightarrow> nat \<Rightarrow> int \<Rightarrow> RaceResult option" where
  "getCachedResult dbo urlHash uid now =
     (case dbo of
        None \<Rightarrow> None
      | Some d \<Rightarrow>
          (case filter (\<lambda>r. r_urlHash r = urlHash \<and> r_userId r = uid \<and> r_expiresAt r > now
                            \<and> r_status r = ResultCompleted) (raceResults d) of
             [] \<Rightarrow> None
           | r # _ \<Rightarrow> Some r))"

definition insert_row :: "RaceResult \<Rightarrow> database \<Rightarrow> database" where
  "insert_row result d =
     d\<lparr> raceResults := raceResults d @ [result\<lparr> r_id := Suc (length (raceResults d)) \<rparr>] \<rparr>"

definition insertRaceResult :: "RaceResult \<Rightarrow> world \<Rightarrow> world" where
  "insertRaceResult result w =
     (case db w of
        None \<Rightarrow> w
      | Some d \<Rightarrow> commit (insert_row result d) w)"

definition await_getCachedResult ::
  "env \<Rightarrow> string \<Rightarrow> nat \<Rightarrow> world \<Rightarrow> (error + RaceResult option) \<times> world" where
  "await_getCachedResult env urlHash uid w =
     (case store_call env (LookupCache urlHash uid) w of
        Some err \<Rightarrow> (Inl err, refused w)
      | None \<Rightarrow> (Inr (getCachedResult (db w) urlHash uid (clock w)), w))"

definition await_insertRaceResult :: "env \<Rightarrow> RaceResult \<Rightarrow> world \<Rightarrow> (error + unit) \<times> world" where
  "await_insertRaceResult env result w =
     (case store_call env (InsertResult result) w of
        Some err \<Rightarrow> (Inl err, refused w)
      | None \<Rightarrow> (Inr (), insertRaceResult result w))"

definition getResultsByJobId :: "database option \<Rightarrow> string \<Rightarrow> RaceResult list" where
  "getResultsByJobId dbo jid =
     (case dbo of
        None \<Rightarrow> []
      | Some d \<Rightarrow> filter (\<lambda>r. r_jobId r = Some jid) (raceResults d))"

text \<open>\<open>jobId\<close> is unique in the table: inserting a second job of the same id fails.\<close>

definition new_job :: "string \<Rightarrow> nat \<Rightarrow> nat \<Rightarrow> nat \<Rightarrow> nat \<Rightarrow> JobStatus \<Rightarrow> nat \<Rightarrow> int \<Rightarrow> database \<Rightarrow> database" where
  "new_job jid n processed succeeded errored st uid now d =
     d\<lparr> processingJobs := processingJobs d @
          [\<lparr> rowId = Suc (length (processingJobs d)), jobId = jid, totalUrls = n,
             processedUrls = processed, successCount = succeeded, errorCount = errored,
             status = st, userId = uid, createdAt = now, completedAt = None \<rparr>] \<rparr>"

definition createProcessingJob ::
  "env \<Rightarrow> string \<Rightarrow> nat \<Rightarrow> nat \<Rightarrow> nat \<Rightarrow> nat \<Rightarrow> JobStatus \<Rightarrow> nat \<Rightarrow> world
     \<Rightarrow> (error + unit) \<times> world" where
  "createProcessingJob env jid n processed succeeded errored st uid w =
     (case db w of
        None \<Rightarrow> (Inr (), w)
      | Some d \<Rightarrow>
          (case store_refuses env w (CreateJob jid) of
             Some err \<Rightarrow> (Inl err, refused w)
           | None \<Rightarrow>
               (if jid \<in> set (map jobId (processingJobs d))
                then (Inl (Error ''Duplicate entry for key processing_jobs_jobId_unique''), w)
                else (Inr (),
                      commit (new_job jid n processed succeeded errored st uid (clock w) d) w))))"

definition getProcessingJob :: "database option \<Rightarrow> string \<Rightarrow> ProcessingJob option" where
  "getProcessingJob dbo jid =
     (case dbo of
        None \<Rightarrow> None
      | Some d \<Rightarrow> find (\<lambda>j. jobId j = jid) (processingJobs d))"

definition apply_updates :: "JobUpdate \<Rightarrow> ProcessingJob \<Rightarrow> ProcessingJob" where
  "apply_updates updates j =
     j\<lparr> processedUrls := (case u_processedUrls updates of Some v \<Rightarrow> v | None \<Rightarrow> processedUrls j),
        successCount := (case u_successCount updates of Some v \<Rightarrow> v | None \<Rightarrow> successCount j),
        errorCount := (case u_errorCount updates of Some v \<Rightarrow> v | None \<Rightarrow> errorCount j),
        status := (case u_status updates of Some v \<Rightarrow> v | None \<Rightarrow> status j),
        completedAt := (case u_completedAt updates of Some v \<Rightarrow> Some v | None \<Rightarrow> completedAt j) \<rparr>"

definition update_rows :: "string \<Rightarrow> JobUpdate \<Rightarrow> database \<Rightarrow> database" where
  "update_rows jid updates d =
     d\<lparr> processingJobs :=
          map (\<lambda>j. if jobId j = jid then apply_updates updates j else j) (processingJobs d) \<rparr>"

definition updateProcessingJob :: "string \<Rightarrow> JobUpdate \<Rightarrow> world \<Rightarrow> world" where
  "updateProcessingJob jid updates w =
     (case db w of
        None \<Rightarrow> w
      | Some d \<Rightarrow> commit (update_rows jid updates d) w)"

definition await_updateProcessingJob ::
  "env \<Rightarrow> string \<Rightarrow> JobUpdate \<Rightarrow> world \<Rightarrow> (error + unit) \<times> world" where
  "await_updateProcessingJob env jid updates w =
     (case store_call env (UpdateJob jid updates) w of
        Some err \<Rightarrow> (Inl err, refused w)
      | None \<Rightarrow> (Inr (), updateProcessingJob jid updates w))"

definition counters_update :: "nat \<Rightarrow> nat \<Rightarrow> nat \<Rightarrow> JobUpdate" where
  "counters_update processedCount successCnt errorCnt =
     \<lparr> u_processedUrls = Some processedCount, u_successCount = Some successCnt,
       u_errorCount = Some errorCnt, u_status = None, u_completedAt = None \<rparr>"

definition status_update :: "JobStatus \<Rightarrow> int option \<Rightarrow> JobUpdate" where
  "status_update st done =
     \<lparr> u_processedUrls = None, u_successCount = None, u_errorCount = None,
       u_status = Some st, u_completedAt = done \<rparr>"


section \<open>Extraction of one URL\<close>

definition extractRaceResults :: "env \<Rightarrow> string \<Rightarrow> world \<Rightarrow> (error + RaceResultData) \<times> world" where
  "extractRaceResults env url w0 =
     (let w = w0\<lparr> attempts := attempts w0 @ [url] \<rparr> in
      case detectPlatform url of
        None \<Rightarrow> (Inl (Error (''Unsupported race timing platform: '' @ url)), w)
      | Some parser \<Rightarrow>
          (case browse env (parser_name parser) url (launches w) of
             (duration, outcome) \<Rightarrow>
               (let w' = w\<lparr> launches := Suc (launches w), clock := clock w + duration \<rparr> in
                case outcome of
                  Inl e \<Rightarrow> (Inl e, w')
                | Inr result \<Rightarrow> (Inr (coerce_result (parser_name parser) result), w'))))"

text \<open>\<open>setTimeout(resolve, delay)\<close>; a negative delay fires at once.\<close>

definition sleep :: "int \<Rightarrow> world \<Rightarrow> world" where
  "sleep delay w = w\<lparr> clock := clock w + max 0 delay, sleeps := sleeps w @ [delay] \<rparr>"


section \<open>The batch: \<open>processUrls\<close> and \<open>extractResults\<close>\<close>

type_synonym counters = "nat \<times> nat \<times> nat"

definition success_row ::
  "env \<Rightarrow> string \<Rightarrow> string \<Rightarrow> RaceResultData \<Rightarrow> int \<Rightarrow> nat \<Rightarrow> RaceResult" where
  "success_row env normalizedUrl urlHash data now uid =
     \<lparr> r_id = 0, r_url = normalizedUrl, r_urlHash = urlHash, r_jobId = None, r_raceName = None,
       r_name = name data, r_category = category data, r_finishTime = finishTime data,
       r_bibNumber = bibNumber data, r_rankOverall = rankOverall data,
       r_rankCategory = rankCategory data, r_pace = pace data,
       r_platform = Some (platform data), r_status = ResultCompleted, r_errorMessage = None,
       r_extractedAt = now, r_cachedAt = now, r_expiresAt = plus_24_hours env now,
       r_userId = uid \<rparr>"

definition error_row :: "env \<Rightarrow> string \<Rightarrow> string \<Rightarrow> string \<Rightarrow> int \<Rightarrow> nat \<Rightarrow> RaceResult" where
  "error_row env normalizedUrl urlHash errorMessage now uid =
     \<lparr> r_id = 0, r_url = normalizedUrl, r_urlHash = urlHash, r_jobId = None, r_raceName = None,
       r_name = None, r_category = None, r_finishTime = None, r_bibNumber = None,
       r_rankOverall = None, r_rankCategory = None, r_pace = None,
       r_platform = Some ''unknown'', r_status = ResultError,
       r_errorMessage = Some errorMessage,
       r_extractedAt = now, r_cachedAt = now, r_expiresAt = plus_24_hours env now,
       r_userId = uid \<rparr>"

text \<open>
  The end of the loop body, after the \<open>try\<close> statement: \<open>processedCount++\<close> and the awaited
  counter update. The argument holds the counters as the \<open>try\<close> statement left them. A
  rejection here is outside the \<open>try\<close> and leaves the loop.
\<close>

definition after_try ::
  "env \<Rightarrow> string \<Rightarrow> counters \<Rightarrow> world \<Rightarrow> (error + counters) \<times> world" where
  "after_try env jid c w =
     (case c of (processedCount, successCnt, errorCnt) \<Rightarrow>
        (case await_updateProcessingJob env jid
                (counters_update (processedCount + 1) successCnt errorCnt) w of
           (Inl e, w') \<Rightarrow> (Inl e, w')
         | (Inr u, w') \<Rightarrow> (Inr (processedCount + 1, successCnt, errorCnt), w')))"

text \<open>
  The \<open>catch\<close> block of the loop body, entered with the counters as they are when the
  error is thrown, followed by the end of the loop body. The block normalises the URL
  again and inserts the error row; when either throws, the error leaves the loop.
\<close>

definition on_error ::
  "env \<Rightarrow> string \<Rightarrow> string \<Rightarrow> nat \<Rightarrow> counters \<Rightarrow> error \<Rightarrow> world \<Rightarrow> (error + counters) \<times> world" where
  "on_error env url jid uid c err w =
     (case c of (processedCount, successCnt, errorCnt) \<Rightarrow>
        (case normalizeUrl env url of
           Inl e \<Rightarrow> (Inl e, w)
         | Inr normalizedUrl \<Rightarrow>
             (let urlHash = hashUrl env normalizedUrl in
              case await_insertRaceResult env
                     (error_row env normalizedUrl urlHash (error_text err) (clock w) uid) w of
                (Inl e, w1) \<Rightarrow> (Inl e, w1)
              | (Inr u, w1) \<Rightarrow> after_try env jid (processedCount, successCnt, errorCnt + 1) w1)))"

text \<open>
  One iteration of the \<open>for\<close> loop: the new counters, or the error that leaves the loop.
  Everything up to \<open>successCount++\<close> is inside the \<open>try\<close>: a cache lookup, a counter update
  on a cache hit or an insertion that rejects is caught like a failed extraction. On a
  cache hit the counters are incremented before the awaited update, so the \<open>catch\<close> block
  is entered with the incremented counters when that update rejects.
\<close>

definition process_url ::
  "env \<Rightarrow> string \<Rightarrow> string \<Rightarrow> nat \<Rightarrow> counters \<Rightarrow> world \<Rightarrow> (error + counters) \<times> world" where
  "process_url env url jid uid c w =
     (case c of (processedCount, successCnt, errorCnt) \<Rightarrow>
        (case normalizeUrl env url of
           Inl err \<Rightarrow> on_error env url jid uid c err w
         | Inr normalizedUrl \<Rightarrow>
             (let urlHash = hashUrl env normalizedUrl in
              case await_getCachedResult env urlHash uid w of
                (Inl err, w0) \<Rightarrow> on_error env url jid uid c err w0
              | (Inr (Some cached), w0) \<Rightarrow>
                  (case await_updateProcessingJob env jid
                          (counters_update (processedCount + 1) (successCnt + 1) errorCnt) w0 of
                     (Inl err, w1) \<Rightarrow>
                       on_error env url jid uid (processedCount + 1, successCnt + 1, errorCnt)
                         err w1
                   | (Inr u, w1) \<Rightarrow> (Inr (processedCount + 1, successCnt + 1, errorCnt), w1))
              | (Inr None, w0) \<Rightarrow>
                  (case retryWithBackoff (extractRaceResults env normalizedUrl) sleep 3 1000 w0 of
                     (Inl err, w1) \<Rightarrow> on_error env url jid uid c err w1
                   | (Inr data, w1) \<Rightarrow>
                       (case await_insertRaceResult env
                               (success_row env normalizedUrl urlHash data (clock w1) uid) w1 of
                          (Inl err, w2) \<Rightarrow> on_error env url jid uid c err w2
                        | (Inr u, w2) \<Rightarrow>
                            after_try env jid (processedCount, successCnt + 1, errorCnt) w2)))))"

fun process_loop ::
  "env \<Rightarrow> string list \<Rightarrow> string \<Rightarrow> nat \<Rightarrow> counters \<Rightarrow> world \<Rightarrow> (error + counters) \<times> world" where
  "process_loop env [] jid uid c w = (Inr c, w)"
| "process_loop env (url # urls) jid uid c w =
     (case process_url env url jid uid c w of
        (Inl e, w') \<Rightarrow> (Inl e, w')
      | (Inr c', w') \<Rightarrow> process_loop env urls jid uid c' w')"

definition processUrls ::
  "env \<Rightarrow> string list \<Rightarrow> string \<Rightarrow> nat \<Rightarrow> world \<Rightarrow> (error + unit) \<times> world" where
  "processUrls env urls jid uid w =
     (case await_updateProcessingJob env jid (status_update Processing None) w of
        (Inl e, w1) \<Rightarrow> (Inl e, w1)
      | (Inr u, w1) \<Rightarrow>
          (case process_loop env urls jid uid (0, 0, 0) w1 of
             (Inl e, w2) \<Rightarrow> (Inl e, w2)
           | (Inr c, w2) \<Rightarrow>
               await_updateProcessingJob env jid
                 (status_update Completed (Some (clock w2))) w2))"

text \<open>
  The submission. \<open>jid\<close> is the identifier \<open>nanoid()\<close> returns and \<open>uid\<close> the caller's
  identity. The input is validated first (1 to 100 entries, each a URL for the validator).
  Background processing is started and its rejection only logged; here it runs to its end
  before the reply is returned.
\<close>

record SubmitReply =
  reply_jobId :: string
  reply_status :: JobStatus
  reply_totalUrls :: nat

definition extractResults ::
  "env \<Rightarrow> string list \<Rightarrow> nat \<Rightarrow> string \<Rightarrow> world \<Rightarrow> (error + SubmitReply) \<times> world" where
  "extractResults env urls uid jid w =
     (if \<not> (1 \<le> length urls \<and> length urls \<le> 100 \<and> list_all (zod_url env) urls)
      then (Inl (Error ''Invalid input''), w)
      else
        (case createProcessingJob env jid (length urls) 0 0 0 Queued uid w of
           (Inl e, w1) \<Rightarrow> (Inl e, w1)
         | (Inr u, w1) \<Rightarrow>
             (case processUrls env urls jid uid w1 of
                (outcome, w2) \<Rightarrow>
                  (Inr \<lparr> reply_jobId = jid, reply_status = Queued,
                         reply_totalUrls = length urls \<rparr>, w2))))"


section \<open>A concrete environment for evaluation\<close>

definition https_url :: "string \<Rightarrow> string \<Rightarrow> string option \<Rightarrow> URL" where
  "https_url h p f =
     \<lparr> url_scheme = ''https'', url_username = [], url_password = [], url_host = Some h,
       url_port = None, url_path = p, url_query = None, url_fragment = f \<rparr>"

definition demo_parse :: "string \<Rightarrow> URL option" where
  "demo_parse = map_of
     [(''https://sportstimingsolutions.in/x'', https_url ''sportstimingsolutions.in'' ''/x'' None),
      (''https://example.com/results'', https_url ''example.com'' ''/results'' None),
      (''https://example.com/r#a'', https_url ''example.com'' ''/r'' (Some ''a'')),
      (''HTTPS://EXAMPLE.com/r#a'', https_url ''example.com'' ''/r'' (Some ''a'')),
      (''https://example.com/r#b'', https_url ''example.com'' ''/r'' (Some ''b''))]"

definition demo_sha256 :: "string \<Rightarrow> string" where
  "demo_sha256 s =
     (case map_of
        [(''https://sportstimingsolutions.in/x'',
          ''2bef3e0ec97d1412b1ab71b79bcf6b7254fc6bbbae437fbd2caf9e359f38fd6d''),
         (''https://example.com/results'',
          ''b35fdd06255fa660d5f696ff51aaf1ebbb4877f10f407247521dfb4847a70e74''),
         (''https://example.com/r#a'',
          ''655d15fe8d2b9a4f83a5948dfdd60fa00d4e88d3756c734549be2f07acba9a80''),
         (''https://example.com/r#b'',
          ''740c9413c7a8fae109a5b2baf855b9b71dcbcf2eabbdbf779154a00a9c4ed722'')] s of
        Some h \<Rightarrow> h
      | None \<Rightarrow> [])"

definition demo_fields :: Extracted where
  "demo_fields =
     \<lparr> name = Some ''Asha Rao'', category = Some ''18 yrs & Above Female'',
       finishTime = Some ''01:58:07'', bibNumber = Some ''2107'',
       rankOverall = Some (Num 41), rankCategory = Some (Num 0), pace = Some '''' \<rparr>"

text \<open>
  In \<open>demo_env\<close> every browser session takes 5 seconds and yields \<open>demo_fields\<close>, the local
  day has 24 hours, and the store carries out every call.
\<close>

definition demo_env :: env where
  "demo_env =
     \<lparr> url_parse = demo_parse, sha256_hex = demo_sha256,
       zod_url = (\<lambda>u. demo_parse u \<noteq> None),
       browse = (\<lambda>p url k. (5000, Inr demo_fields)),
       plus_24_hours = (\<lambda>t. t + 86400000),
       store_refuses = (\<lambda>w req. None) \<rparr>"

definition empty_db :: database where
  "empty_db = \<lparr> processingJobs = [], raceResults = [] \<rparr>"

text \<open>
  A cache table: a successful row of user 1 and one of user 2 for the same URL, both
  expiring at 1700086405000, and a failed row of user 1 that expires later.
\<close>

definition cached_row :: "nat \<Rightarrow> RaceResult" where
  "cached_row uid =
     (success_row demo_env ''https://sportstimingsolutions.in/x''
        ''2bef3e0ec97d1412b1ab71b79bcf6b7254fc6bbbae437fbd2caf9e359f38fd6d''
        (coerce_result ''Sports Timing Solutions'' demo_fields) 1700000005000 uid)
     \<lparr> r_id := uid \<rparr>"

definition failed_row :: RaceResult where
  "failed_row =
     (error_row demo_env ''https://sportstimingsolutions.in/x''
        ''2bef3e0ec97d1412b1ab71b79bcf6b7254fc6bbbae437fbd2caf9e359f38fd6d''
        ''Timeout 30000ms exceeded'' 1700000900000 1)
     \<lparr> r_id := 3 \<rparr>"

definition cache_db :: database where
  "cache_db = \<lparr> processingJobs = [], raceResults = [cached_row 1, cached_row 2, failed_row] \<rparr>"

definition start :: world where
  "start = \<lparr> db = Some empty_db, snapshots = [], clock = 1700000000000,
             attempts = [], launches = 0, sleeps = [], refusals = 0 \<rparr>"

text \<open>
  Runs for evaluation, all by user 1 as job \<open>job1\<close> from \<open>start\<close>: a supported and an
  unsupported URL; the same supported URL twice; an unsupported URL alone.
\<close>

definition mixed_run :: world where
  "mixed_run = snd (extractResults demo_env
     [''https://sportstimingsolutions.in/x'', ''https://example.com/results''] 1 ''job1'' start)"

definition repeat_run :: world where
  "repeat_run = snd (extractResults demo_env
     [''https://sportstimingsolutions.in/x'', ''https://sportstimingsolutions.in/x''] 1 ''job1''
     start)"

text \<open>
  Background processing started directly on a batch holding a string that is not a URL,
  for a job of two URLs created beforehand.
\<close>

definition aborted_run :: "(error + unit) \<times> world" where
  "aborted_run = processUrls demo_env [''https://sportstimingsolutions.in/x'', ''not-a-url'']
     ''job1'' 1 (snd (createProcessingJob demo_env ''job1'' 2 0 0 0 Queued 1 start))"

text \<open>
  A store that rejects one call: the counter update to 2 processed, 2 succeeded. With it,
  the same supported URL is submitted twice; the second is served from the cache and its
  counter update is the call rejected.
\<close>

definition drops_second_count :: "world \<Rightarrow> request \<Rightarrow> error option" where
  "drops_second_count w req =
     (case req of
        UpdateJob jid updates \<Rightarrow>
          (if u_processedUrls updates = Some 2 \<and> u_successCount updates = Some 2
           then Some (Error ''Lost connection to MySQL server during query'') else None)
      | _ \<Rightarrow> None)"

definition faulty_run :: world where
  "faulty_run = snd (extractResults (demo_env\<lparr> store_refuses := drops_second_count \<rparr>)
     [''https://sportstimingsolutions.in/x'', ''https://sportstimingsolutions.in/x''] 1 ''job1''
     start)"



section \<open>What a poll observes\<close>

text \<open>The counter invariant of a job row.\<close>

definition counters_ok :: "ProcessingJob \<Rightarrow> bool" where
  "counters_ok j =
     (successCount j + errorCount j = processedUrls j \<and> processedUrls j \<le> totalUrls j)"

text \<open>The order of the states: queued, then processing, then a terminal state.\<close>

fun status_rank :: "JobStatus \<Rightarrow> nat" where
  "status_rank Queued = 1"
| "status_rank Processing = 2"
| "status_rank Completed = 3"
| "status_rank Failed = 3"

definition job_status :: "string \<Rightarrow> database \<Rightarrow> JobStatus option" where
  "job_status jid d = map_option status (getProcessingJob (Some d) jid)"

definition job_rank :: "string \<Rightarrow> database \<Rightarrow> nat" where
  "job_rank jid d = (case job_status jid d of None \<Rightarrow> 0 | Some st \<Rightarrow> status_rank st)"

text \<open>The database states written since the world \<open>w\<close>, in order.\<close>

definition written_since :: "world \<Rightarrow> world \<Rightarrow> database list" where
  "written_since w w' = drop (length (snapshots w)) (snapshots w')"

text \<open>
  Database \<open>d\<close> holds job \<open>jid\<close>, and every row of that id has total \<open>n\<close>, status \<open>st\<close>
  and the counters \<open>c\<close>.
\<close>

definition tracks :: "string \<Rightarrow> nat \<Rightarrow> JobStatus \<Rightarrow> counters \<Rightarrow> database \<Rightarrow> bool" where
  "tracks jid n st c d =
     (jid \<in> set (map jobId (processingJobs d)) \<and>
      (\<forall>j \<in> set (processingJobs d). jobId j = jid \<longrightarrow>
         totalUrls j = n \<and> status j = st \<and>
         (processedUrls j, successCount j, errorCount j) = c))"

definition sum_ok :: "nat \<Rightarrow> counters \<Rightarrow> bool" where
  "sum_ok n c = (case c of (p, s, e) \<Rightarrow> s + e = p \<and> p \<le> n)"

definition db_tracks :: "string \<Rightarrow> nat \<Rightarrow> JobStatus \<Rightarrow> counters \<Rightarrow> database option \<Rightarrow> bool" where
  "db_tracks jid n st c dbo = (case dbo of None \<Rightarrow> True | Some d \<Rightarrow> tracks jid n st c d)"

definition all_tracked :: "string \<Rightarrow> nat \<Rightarrow> JobStatus \<Rightarrow> database list \<Rightarrow> bool" where
  "all_tracked jid n st ds = (\<forall>d \<in> set ds. \<exists>c. sum_ok n c \<and> tracks jid n st c d)"

text \<open>
  From \<open>w\<close> to \<open>w'\<close> the loop has only written states in which the job is processing with
  consistent counters, and it leaves the job with the counters \<open>c'\<close>.
\<close>

definition advanced :: "string \<Rightarrow> nat \<Rightarrow> world \<Rightarrow> world \<Rightarrow> counters \<Rightarrow> bool" where
  "advanced jid n w w' c' =
     ((\<exists>new. snapshots w' = snapshots w @ new \<and> all_tracked jid n Processing new) \<and>
      (db w' = None \<longleftrightarrow> db w = None) \<and>
      db_tracks jid n Processing c' (db w') \<and> sum_ok n c')"

section \<open>Effects of the primitive operations\<close>

lemma commit_simps [simp]:
  "db (commit d w) = Some d"
  "snapshots (commit d w) = snapshots w @ [d]"
  "clock (commit d w) = clock w"
  "attempts (commit d w) = attempts w"
  "launches (commit d w) = launches w"
  "sleeps (commit d w) = sleeps w"
  "refusals (commit d w) = refusals w"
  by (simp_all add: commit_def)

lemma updateProcessingJob_simps [simp]:
  "db (updateProcessingJob jid u w) = map_option (update_rows jid u) (db w)"
  "snapshots (updateProcessingJob jid u w) =
     snapshots w @ (case db w of None \<Rightarrow> [] | Some d \<Rightarrow> [update_rows jid u d])"
  "clock (updateProcessingJob jid u w) = clock w"
  "attempts (updateProcessingJob jid u w) = attempts w"
  "launches (updateProcessingJob jid u w) = launches w"
  "sleeps (updateProcessingJob jid u w) = sleeps w"
  "refusals (updateProcessingJob jid u w) = refusals w"
  by (simp_all add: updateProcessingJob_def split: option.splits)

lemma insertRaceResult_simps [simp]:
  "db (insertRaceResult row w) = map_option (insert_row row) (db w)"
  "snapshots (insertRaceResult row w) =
     snapshots w @ (case db w of None \<Rightarrow> [] | Some d \<Rightarrow> [insert_row row d])"
  "clock (insertRaceResult row w) = clock w"
  "attempts (insertRaceResult row w) = attempts w"
  "launches (insertRaceResult row w) = launches w"
  "sleeps (insertRaceResult row w) = sleeps w"
  "refusals (insertRaceResult row w) = refusals w"
  by (simp_all add: insertRaceResult_def split: option.splits)

lemma sleep_simps [simp]:
  "db (sleep t w) = db w"
  "snapshots (sleep t w) = snapshots w"
  by (simp_all add: sleep_def)

lemma extractRaceResults_db:
  "extractRaceResults env url w = (r, w') \<Longrightarrow> db w' = db w \<and> snapshots w' = snapshots w"
  by (auto simp: extractRaceResults_def Let_def split: option.splits prod.splits sum.splits)

lemma retry_loop_preserves:
  assumes fn: "\<And>s r s'. fn s = (r, s') \<Longrightarrow> P s \<Longrightarrow> P s'"
    and sl: "\<And>t s. P s \<Longrightarrow> P (sl t s)"
  shows "P s \<Longrightarrow> retry_loop fn sl m d a l s = (r, s') \<Longrightarrow> P s'"
proof (induction "nat (m - a)" arbitrary: a l s)
  case 0
  then show ?case by (simp add: retry_loop.simps[of _ _ m d a])
next
  case (Suc n)
  then have lt: "a < m" by simp
  obtain r1 s1 where f: "fn s = (r1, s1)" by (cases "fn s")
  have p1: "P s1" using fn[OF f Suc(3)] .
  show ?case
  proof (cases r1)
    case (Inr v)
    with lt f Suc(4) p1 show ?thesis by (simp add: retry_loop.simps[of _ _ m d a])
  next
    case (Inl e)
    let ?s2 = "if a < m - 1 then sl (d * 2 ^ nat a) s1 else s1"
    have p2: "P ?s2" using p1 sl by simp
    have n: "n = nat (m - (a + 1))" using Suc(2) by simp
    from lt f Inl Suc(4) have "retry_loop fn sl m d (a + 1) (Some e) ?s2 = (r, s')"
      by (simp add: retry_loop.simps[of _ _ m d a])
    from Suc(1)[OF n p2 this] show ?thesis .
  qed
qed

lemma retry_extract_db:
  assumes "retryWithBackoff (extractRaceResults env url) sleep m d w = (r, w')"
  shows "db w' = db w \<and> snapshots w' = snapshots w"
proof -
  let ?P = "\<lambda>x. db x = db w \<and> snapshots x = snapshots w"
  have "?P w'"
  proof (rule retry_loop_preserves[where P = ?P and fn = "extractRaceResults env url"
        and sl = sleep and s = w])
    show "\<And>s r s'. extractRaceResults env url s = (r, s') \<Longrightarrow> ?P s \<Longrightarrow> ?P s'"
      using extractRaceResults_db by metis
    show "\<And>t s. ?P s \<Longrightarrow> ?P (sleep t s)" by simp
    show "?P w" by simp
    show "retry_loop (extractRaceResults env url) sleep m d 0 None w = (r, w')"
      using assms by (simp add: retryWithBackoff_def)
  qed
  then show ?thesis .
qed

lemma tracks_update_counters:
  "tracks jid n st c d \<Longrightarrow> tracks jid n st (p, s, e) (update_rows jid (counters_update p s e) d)"
  by (auto simp: tracks_def update_rows_def apply_updates_def counters_update_def image_iff)

lemma tracks_update_status:
  "tracks jid n st c d \<Longrightarrow> tracks jid n st' c (update_rows jid (status_update st' t) d)"
  by (auto simp: tracks_def update_rows_def apply_updates_def status_update_def image_iff)

lemma tracks_insert_row:
  "tracks jid n st c d \<Longrightarrow> tracks jid n st c (insert_row row d)"
  by (simp add: tracks_def insert_row_def)

lemma tracks_new_job:
  "jid \<notin> set (map jobId (processingJobs d)) \<Longrightarrow>
   tracks jid n st (p, s, e) (new_job jid n p s e st uid now d)"
  by (auto simp: tracks_def new_job_def)

lemma tracks_get:
  assumes "tracks jid n st c d"
  shows "\<exists>j. getProcessingJob (Some d) jid = Some j \<and> j \<in> set (processingJobs d) \<and>
           jobId j = jid \<and> totalUrls j = n \<and> status j = st \<and>
           (processedUrls j, successCount j, errorCount j) = c"
proof -
  from assms obtain j where f: "find (\<lambda>j. jobId j = jid) (processingJobs d) = Some j"
    by (cases "find (\<lambda>j. jobId j = jid) (processingJobs d)")
       (auto simp: tracks_def find_None_iff)
  then have "j \<in> set (processingJobs d) \<and> jobId j = jid"
    by (auto simp: find_Some_iff)
  with f assms show ?thesis
    by (simp add: getProcessingJob_def tracks_def)
qed

lemma tracks_job_status:
  "tracks jid n st c d \<Longrightarrow> job_status jid d = Some st"
  using tracks_get[of jid n st c d] by (auto simp: job_status_def)

lemma tracks_job_rank:
  "tracks jid n st c d \<Longrightarrow> job_rank jid d = status_rank st"
  by (simp add: job_rank_def tracks_job_status)

lemma tracks_counters_ok:
  "tracks jid n st c d \<Longrightarrow> sum_ok n c \<Longrightarrow> j \<in> set (processingJobs d) \<Longrightarrow> jobId j = jid \<Longrightarrow>
   counters_ok j \<and> totalUrls j = n"
  by (auto simp: tracks_def sum_ok_def counters_ok_def)

section \<open>A store that carries out every call\<close>

lemma reliable_calls:
  assumes "reliable env"
  shows "await_updateProcessingJob env jid u w = (Inr (), updateProcessingJob jid u w)"
    and "await_insertRaceResult env row w = (Inr (), insertRaceResult row w)"
    and "await_getCachedResult env h uid w = (Inr (getCachedResult (db w) h uid (clock w)), w)"
  using assms
  by (simp_all add: reliable_def await_updateProcessingJob_def await_insertRaceResult_def
      await_getCachedResult_def store_call_def split: option.splits)

lemma after_try_rel:
  assumes "reliable env"
  shows "after_try env jid (p, s, e) w =
           (Inr (p + 1, s, e), updateProcessingJob jid (counters_update (p + 1) s e) w)"
  by (simp add: after_try_def reliable_calls[OF assms])

lemma on_error_rel:
  assumes "reliable env"
  shows "on_error env url jid uid c err w =
     (case c of (processedCount, successCnt, errorCnt) \<Rightarrow>
        (case normalizeUrl env url of
           Inl e \<Rightarrow> (Inl e, w)
         | Inr normalizedUrl \<Rightarrow>
             (let urlHash = hashUrl env normalizedUrl;
                  w1 = insertRaceResult
                         (error_row env normalizedUrl urlHash (error_text err) (clock w) uid) w
              in (Inr (processedCount + 1, successCnt, errorCnt + 1),
                  updateProcessingJob jid
                    (counters_update (processedCount + 1) successCnt (errorCnt + 1)) w1))))"
  by (cases c)
     (simp add: on_error_def reliable_calls[OF assms] after_try_rel[OF assms] Let_def
        split: sum.splits)

lemma process_url_rel:
  assumes "reliable env"
  shows "process_url env url jid uid c w =
     (case c of (processedCount, successCnt, errorCnt) \<Rightarrow>
        (case normalizeUrl env url of
           Inl err \<Rightarrow> on_error env url jid uid c err w
         | Inr normalizedUrl \<Rightarrow>
             (let urlHash = hashUrl env normalizedUrl in
              case getCachedResult (db w) urlHash uid (clock w) of
                Some cached \<Rightarrow>
                  (Inr (processedCount + 1, successCnt + 1, errorCnt),
                   updateProcessingJob jid
                     (counters_update (processedCount + 1) (successCnt + 1) errorCnt) w)
              | None \<Rightarrow>
                  (case retryWithBackoff (extractRaceResults env normalizedUrl) sleep 3 1000 w of
                     (Inl err, w1) \<Rightarrow> on_error env url jid uid c err w1
                   | (Inr data, w1) \<Rightarrow>
                       (let w2 = insertRaceResult
                                   (success_row env normalizedUrl urlHash data (clock w1) uid) w1
                        in (Inr (processedCount + 1, successCnt + 1, errorCnt),
                            updateProcessingJob jid
                              (counters_update (processedCount + 1) (successCnt + 1) errorCnt)
                              w2))))))"
  by (cases c)
     (simp add: process_url_def reliable_calls[OF assms] after_try_rel[OF assms] Let_def
        split: sum.splits option.splits prod.splits)

lemma processUrls_rel:
  assumes "reliable env"
  shows "processUrls env urls jid uid w =
     (let w1 = updateProcessingJob jid (status_update Processing None) w in
      case process_loop env urls jid uid (0, 0, 0) w1 of
        (Inl e, w2) \<Rightarrow> (Inl e, w2)
      | (Inr c, w2) \<Rightarrow>
          (Inr (), updateProcessingJob jid (status_update Completed (Some (clock w2))) w2))"
  by (simp add: processUrls_def reliable_calls[OF assms] Let_def split: sum.splits prod.splits)

lemma createProcessingJob_rel:
  assumes "reliable env"
  shows "createProcessingJob env jid n processed succeeded errored st uid w =
     (case db w of
        None \<Rightarrow> (Inr (), w)
      | Some d \<Rightarrow>
          (if jid \<in> set (map jobId (processingJobs d))
           then (Inl (Error ''Duplicate entry for key processing_jobs_jobId_unique''), w)
           else (Inr (), commit (new_job jid n processed succeeded errored st uid (clock w) d) w)))"
  using assms by (simp add: createProcessingJob_def reliable_def split: option.splits)

section \<open>The loop keeps the job row consistent\<close>

lemma advanced_refl:
  "db_tracks jid n Processing c (db w) \<Longrightarrow> sum_ok n c \<Longrightarrow> advanced jid n w w c"
  by (simp add: advanced_def all_tracked_def)

lemma advanced_trans:
  "advanced jid n w w1 c1 \<Longrightarrow> advanced jid n w1 w2 c2 \<Longrightarrow> advanced jid n w w2 c2"
  by (auto simp: advanced_def all_tracked_def)

lemma advanced_same_db:
  "db w1 = db w \<Longrightarrow> snapshots w1 = snapshots w \<Longrightarrow> advanced jid n w1 w' c \<Longrightarrow> advanced jid n w w' c"
  by (simp add: advanced_def)

lemma advanced_count:
  assumes "db_tracks jid n Processing c (db w)" "sum_ok n (p, s, e)"
  shows "advanced jid n w (updateProcessingJob jid (counters_update p s e) w) (p, s, e)"
proof (cases "db w")
  case None
  then show ?thesis using assms by (simp add: advanced_def all_tracked_def db_tracks_def)
next
  case (Some d)
  with assms(1) have "tracks jid n Processing c d" by (simp add: db_tracks_def)
  from tracks_update_counters[OF this, of p s e] Some assms(2) show ?thesis
    by (auto simp: advanced_def all_tracked_def db_tracks_def simp del: split_paired_Ex)
qed

lemma advanced_insert_count:
  assumes "db_tracks jid n Processing c (db w)" "sum_ok n c" "sum_ok n (p, s, e)"
  shows "advanced jid n w
           (updateProcessingJob jid (counters_update p s e) (insertRaceResult row w)) (p, s, e)"
proof (cases "db w")
  case None
  then show ?thesis using assms by (simp add: advanced_def all_tracked_def db_tracks_def)
next
  case (Some d)
  with assms(1) have t: "tracks jid n Processing c d" by (simp add: db_tracks_def)
  note t1 = tracks_insert_row[OF t, of row]
  note t2 = tracks_update_counters[OF t1, of p s e]
  from t1 t2 Some assms(2,3) show ?thesis
    by (auto simp: advanced_def all_tracked_def db_tracks_def simp del: split_paired_Ex)
qed

lemma on_error_step:
  assumes rel: "reliable env" and run: "on_error env url jid uid c err w = (res, w')"
    and tr: "db_tracks jid n Processing c (db w)" and ok: "sum_ok n c" and lt: "fst c < n"
  shows "\<exists>c'. advanced jid n w w' c' \<and>
           (case res of Inr r \<Rightarrow> r = c' \<and> fst c' = Suc (fst c) | Inl x \<Rightarrow> c' = c)"
proof -
  obtain p s e where c: "c = (p, s, e)" by (cases c)
  show ?thesis
  proof (cases "normalizeUrl env url")
    case (Inl x)
    with run c have "res = Inl x" "w' = w" by (simp_all add: on_error_rel[OF rel])
    with advanced_refl[OF tr ok] show ?thesis by (intro exI[of _ c]) simp
  next
    case (Inr nurl)
    let ?row = "error_row env nurl (hashUrl env nurl) (error_text err) (clock w) uid"
    from run c Inr have r: "res = Inr (p + 1, s, e + 1)"
      and w': "w' = updateProcessingJob jid (counters_update (p + 1) s (e + 1))
                      (insertRaceResult ?row w)"
      by (simp_all add: on_error_rel[OF rel] Let_def)
    from ok lt c have ok': "sum_ok n (p + 1, s, e + 1)" by (simp add: sum_ok_def)
    from advanced_insert_count[OF tr ok ok', of ?row] r w' c show ?thesis
      by (intro exI[of _ "(p + 1, s, e + 1)"]) simp
  qed
qed

lemma process_url_step:
  assumes rel: "reliable env" and run: "process_url env url jid uid c w = (res, w')"
    and tr: "db_tracks jid n Processing c (db w)" and ok: "sum_ok n c" and lt: "fst c < n"
  shows "\<exists>c'. advanced jid n w w' c' \<and>
           (case res of Inr r \<Rightarrow> r = c' \<and> fst c' = Suc (fst c) | Inl x \<Rightarrow> c' = c)"
proof -
  obtain p s e where c: "c = (p, s, e)" by (cases c)
  show ?thesis
  proof (cases "normalizeUrl env url")
    case (Inl err)
    with run c have "on_error env url jid uid c err w = (res, w')"
      by (simp add: process_url_rel[OF rel])
    from on_error_step[OF rel this tr ok lt] show ?thesis .
  next
    case (Inr nurl)
    show ?thesis
    proof (cases "getCachedResult (db w) (hashUrl env nurl) uid (clock w)")
      case (Some cached)
      with run c Inr have r: "res = Inr (p + 1, s + 1, e)"
        and w': "w' = updateProcessingJob jid (counters_update (p + 1) (s + 1) e) w"
        by (simp_all add: process_url_rel[OF rel] Let_def)
      from ok lt c have ok': "sum_ok n (p + 1, s + 1, e)" by (simp add: sum_ok_def)
      from advanced_count[OF tr ok'] r w' c show ?thesis
        by (intro exI[of _ "(p + 1, s + 1, e)"]) simp
    next
      case None
      obtain r1 w1 where rt:
        "retryWithBackoff (extractRaceResults env nurl) sleep 3 1000 w = (r1, w1)"
        by (cases "retryWithBackoff (extractRaceResults env nurl) sleep 3 1000 w")
      from retry_extract_db[OF rt] have same: "db w1 = db w" "snapshots w1 = snapshots w"
        by simp_all
      from tr same have tr1: "db_tracks jid n Processing c (db w1)" by simp
      show ?thesis
      proof (cases r1)
        case (Inl err)
        with run c Inr None rt have "on_error env url jid uid c err w1 = (res, w')"
          by (simp add: process_url_rel[OF rel] Let_def)
        from on_error_step[OF rel this tr1 ok lt] obtain c' where
          "advanced jid n w1 w' c'"
          "case res of Inr r \<Rightarrow> r = c' \<and> fst c' = Suc (fst c) | Inl x \<Rightarrow> c' = c"
          by auto
        with advanced_same_db[OF same] show ?thesis by (intro exI[of _ c']) simp
      next
        case (Inr data)
        let ?row = "success_row env nurl (hashUrl env nurl) data (clock w1) uid"
        from run c \<open>normalizeUrl env url = Inr nurl\<close> None rt Inr
        have r: "res = Inr (p + 1, s + 1, e)"
          and w': "w' = updateProcessingJob jid (counters_update (p + 1) (s + 1) e)
                          (insertRaceResult ?row w1)"
          by (simp_all add: process_url_rel[OF rel] Let_def)
        from ok lt c have ok': "sum_ok n (p + 1, s + 1, e)" by (simp add: sum_ok_def)
        from advanced_insert_count[OF tr1 ok ok', of ?row] w'
        have "advanced jid n w1 w' (p + 1, s + 1, e)" by simp
        from advanced_same_db[OF same this] r c show ?thesis
          by (intro exI[of _ "(p + 1, s + 1, e)"]) simp
      qed
    qed
  qed
qed

lemma process_loop_steps:
  assumes rel: "reliable env"
  shows "process_loop env urls jid uid c w = (res, w') \<Longrightarrow>
   db_tracks jid n Processing c (db w) \<Longrightarrow> sum_ok n c \<Longrightarrow> fst c + length urls \<le> n \<Longrightarrow>
   \<exists>c'. advanced jid n w w' c' \<and>
         (case res of Inr r \<Rightarrow> r = c' \<and> fst c' = fst c + length urls
                    | Inl x \<Rightarrow> fst c' < fst c + length urls)"
proof (induction urls arbitrary: c w)
  case Nil
  from Nil(1) have "res = Inr c" "w' = w" by simp_all
  with advanced_refl[OF Nil(2,3)] show ?case by (intro exI[of _ c]) simp
next
  case (Cons url urls)
  obtain r1 w1 where st: "process_url env url jid uid c w = (r1, w1)"
    by (cases "process_url env url jid uid c w")
  from Cons.prems(4) have lt: "fst c < n" by simp
  from process_url_step[OF rel st Cons.prems(2,3) lt] obtain c1 where
    adv: "advanced jid n w w1 c1"
    and r1: "case r1 of Inr r \<Rightarrow> r = c1 \<and> fst c1 = Suc (fst c) | Inl x \<Rightarrow> c1 = c"
    by auto
  show ?case
  proof (cases r1)
    case (Inl x)
    with st Cons.prems(1) have "res = Inl x" "w' = w1" by simp_all
    with adv r1 Inl show ?thesis by (intro exI[of _ c1]) simp
  next
    case (Inr c1')
    with r1 have c1: "c1' = c1" "fst c1 = Suc (fst c)" by simp_all
    from st Inr c1 Cons.prems(1) have run: "process_loop env urls jid uid c1 w1 = (res, w')"
      by simp
    from adv have tr1: "db_tracks jid n Processing c1 (db w1)" and ok1: "sum_ok n c1"
      by (simp_all add: advanced_def)
    from c1 Cons.prems(4) have le: "fst c1 + length urls \<le> n" by simp
    from Cons.IH[OF run tr1 ok1 le] obtain c2 where
      adv2: "advanced jid n w1 w' c2"
      and r2: "case res of Inr r \<Rightarrow> r = c2 \<and> fst c2 = fst c1 + length urls
                         | Inl x \<Rightarrow> fst c2 < fst c1 + length urls"
      by auto
    from advanced_trans[OF adv adv2] r2 c1 show ?thesis
      by (intro exI[of _ c2]) (auto split: sum.splits)
  qed
qed

section \<open>A whole run of \<open>processUrls\<close> and of \<open>extractResults\<close>\<close>

lemma on_error_returns:
  assumes rel: "reliable env"
  shows "normalizeUrl env url = Inr nurl \<Longrightarrow>
         \<exists>c' w'. on_error env url jid uid c err w = (Inr c', w')"
  by (cases c) (simp add: on_error_rel[OF rel] Let_def)

lemma process_url_returns:
  assumes rel: "reliable env" and "url_parse env url \<noteq> None"
  shows "\<exists>c' w'. process_url env url jid uid c w = (Inr c', w')"
proof -
  from assms(2) obtain nurl where n: "normalizeUrl env url = Inr nurl"
    by (auto simp: normalizeUrl_def)
  obtain p s e where c: "c = (p, s, e)" by (cases c)
  show ?thesis
  proof (cases "getCachedResult (db w) (hashUrl env nurl) uid (clock w)")
    case (Some cached)
    with n c show ?thesis by (simp add: process_url_rel[OF rel] Let_def)
  next
    case None
    obtain r1 w1 where rt:
      "retryWithBackoff (extractRaceResults env nurl) sleep 3 1000 w = (r1, w1)"
      by (cases "retryWithBackoff (extractRaceResults env nurl) sleep 3 1000 w")
    show ?thesis
    proof (cases r1)
      case (Inl err)
      with n c None rt on_error_returns[OF rel n, of jid uid c err w1] show ?thesis
        by (simp add: process_url_rel[OF rel] Let_def)
    next
      case (Inr data)
      with n c None rt show ?thesis by (simp add: process_url_rel[OF rel] Let_def)
    qed
  qed
qed

lemma process_loop_returns:
  assumes rel: "reliable env"
  shows "list_all (\<lambda>u. url_parse env u \<noteq> None) urls \<Longrightarrow>
   \<exists>c' w'. process_loop env urls jid uid c w = (Inr c', w')"
proof (induction urls arbitrary: c w)
  case Nil
  show ?case by (intro exI[of _ c] exI[of _ w]) simp
next
  case (Cons url urls)
  from Cons.prems have u: "url_parse env url \<noteq> None"
    and rest: "list_all (\<lambda>u. url_parse env u \<noteq> None) urls" by simp_all
  from process_url_returns[OF rel u, of jid uid c w] obtain c1 w1 where
    "process_url env url jid uid c w = (Inr c1, w1)" by auto
  with Cons.IH[OF rest, of c1 w1] show ?case by simp
qed

lemma processUrls_returns:
  assumes rel: "reliable env"
  shows "list_all (\<lambda>u. url_parse env u \<noteq> None) urls \<Longrightarrow>
   \<exists>w'. processUrls env urls jid uid w = (Inr (), w')"
proof -
  assume "list_all (\<lambda>u. url_parse env u \<noteq> None) urls"
  from process_loop_returns[OF rel this] obtain c' w2 where
    "process_loop env urls jid uid (0, 0, 0)
       (updateProcessingJob jid (status_update Processing None) w) = (Inr c', w2)"
    by blast
  then show ?thesis by (simp add: processUrls_rel[OF rel] Let_def)
qed

lemma completed_stamp:
  assumes "j \<in> set (processingJobs (update_rows jid (status_update st (Some t)) d))"
    and "jobId j = jid"
  shows "completedAt j = Some t"
proof -
  from assms(1) obtain j0 where j0: "j0 \<in> set (processingJobs d)"
    "j = (if jobId j0 = jid then apply_updates (status_update st (Some t)) j0 else j0)"
    by (auto simp: update_rows_def)
  show ?thesis
  proof (cases "jobId j0 = jid")
    case True
    with j0(2) show ?thesis by (simp add: apply_updates_def status_update_def)
  next
    case False
    with j0(2) assms(2) show ?thesis by simp
  qed
qed

lemma on_error_no_db:
  assumes rel: "reliable env" and run: "on_error env url jid uid c err w = (r, w')" and none: "db w = None"
  shows "db w' = None \<and> snapshots w' = snapshots w"
proof -
  obtain p s e where c: "c = (p, s, e)" by (cases c)
  show ?thesis
  proof (cases "normalizeUrl env url")
    case (Inl x)
    with run c have "w' = w" by (simp add: on_error_rel[OF rel])
    with none show ?thesis by simp
  next
    case (Inr nurl)
    with run c have "w' = updateProcessingJob jid (counters_update (p + 1) s (e + 1))
        (insertRaceResult (error_row env nurl (hashUrl env nurl) (error_text err) (clock w) uid) w)"
      by (simp add: on_error_rel[OF rel] Let_def)
    with none show ?thesis by simp
  qed
qed

lemma process_url_no_db:
  assumes rel: "reliable env" and run: "process_url env url jid uid c w = (r, w')" and none: "db w = None"
  shows "db w' = None \<and> snapshots w' = snapshots w"
proof -
  obtain p s e where c: "c = (p, s, e)" by (cases c)
  show ?thesis
  proof (cases "normalizeUrl env url")
    case (Inl x)
    with run c have "on_error env url jid uid c x w = (r, w')" by (simp add: process_url_rel[OF rel])
    from on_error_no_db[OF rel this none] show ?thesis .
  next
    case (Inr nurl)
    have miss: "getCachedResult (db w) (hashUrl env nurl) uid (clock w) = None"
      using none by (simp add: getCachedResult_def)
    obtain r1 w1 where rt:
      "retryWithBackoff (extractRaceResults env nurl) sleep 3 1000 w = (r1, w1)"
      by (cases "retryWithBackoff (extractRaceResults env nurl) sleep 3 1000 w")
    from retry_extract_db[OF rt] none have w1: "db w1 = None" "snapshots w1 = snapshots w"
      by simp_all
    show ?thesis
    proof (cases r1)
      case (Inl err)
      with run c Inr miss rt have "on_error env url jid uid c err w1 = (r, w')"
        by (simp add: process_url_rel[OF rel] Let_def)
      from on_error_no_db[OF rel this w1(1)] w1(2) show ?thesis by simp
    next
      case (Inr data)
      with run c \<open>normalizeUrl env url = Inr nurl\<close> miss rt
      have "w' = updateProcessingJob jid (counters_update (p + 1) (s + 1) e)
              (insertRaceResult (success_row env nurl (hashUrl env nurl) data (clock w1) uid) w1)"
        by (simp add: process_url_rel[OF rel] Let_def)
      with w1 show ?thesis by simp
    qed
  qed
qed

lemma process_loop_no_db:
  assumes rel: "reliable env"
  shows "process_loop env us jid uid c w = (r, w') \<Longrightarrow> db w = None \<Longrightarrow>
   db w' = None \<and> snapshots w' = snapshots w"
proof (induction us arbitrary: c w)
  case Nil
  then show ?case by auto
next
  case (Cons u us)
  obtain r1 w1 where st: "process_url env u jid uid c w = (r1, w1)"
    by (cases "process_url env u jid uid c w")
  from process_url_no_db[OF rel st Cons.prems(2)]
  have m: "db w1 = None" "snapshots w1 = snapshots w" by simp_all
  show ?case
  proof (cases r1)
    case (Inl x)
    with st Cons.prems(1) m show ?thesis by auto
  next
    case (Inr c1)
    with st Cons.prems(1) have "process_loop env us jid uid c1 w1 = (r, w')" by simp
    from Cons.IH[OF this m(1)] m(2) show ?thesis by simp
  qed
qed

lemma processUrls_no_db:
  assumes rel: "reliable env" and "processUrls env urls jid uid w = (res, w')" "db w = None"
  shows "snapshots w' = snapshots w \<and> db w' = None"
proof -
  let ?w1 = "updateProcessingJob jid (status_update Processing None) w"
  obtain r2 w2 where lp: "process_loop env urls jid uid (0, 0, 0) ?w1 = (r2, w2)"
    by (cases "process_loop env urls jid uid (0, 0, 0) ?w1")
  have "db ?w1 = None" "snapshots ?w1 = snapshots w" using assms(3) by simp_all
  with process_loop_no_db[OF rel lp] have "db w2 = None" "snapshots w2 = snapshots w" by simp_all
  with assms(2) lp show ?thesis
    by (cases r2) (auto simp: processUrls_rel[OF rel] Let_def)
qed

lemma processUrls_trace:
  assumes rel: "reliable env" and run: "processUrls env urls jid uid w = (res, w')"
    and d: "db w = Some d" and tr: "tracks jid n Queued (0, 0, 0) d" and le: "length urls \<le> n"
  shows "\<exists>mid c. all_tracked jid n Processing mid \<and> mid \<noteq> [] \<and> sum_ok n c \<and>
           (case res of
              Inl x \<Rightarrow> snapshots w' = snapshots w @ mid \<and> fst c < length urls \<and>
                       (\<exists>d2. db w' = Some d2 \<and> tracks jid n Processing c d2)
            | Inr u \<Rightarrow> fst c = length urls \<and>
                       (\<exists>dfin. snapshots w' = snapshots w @ mid @ [dfin] \<and> db w' = Some dfin \<and>
                          tracks jid n Completed c dfin \<and>
                          (\<forall>j \<in> set (processingJobs dfin). jobId j = jid \<longrightarrow> completedAt j \<noteq> None)))"
proof -
  let ?d1 = "update_rows jid (status_update Processing None) d"
  let ?w1 = "updateProcessingJob jid (status_update Processing None) w"
  have t1: "tracks jid n Processing (0, 0, 0) ?d1" using tracks_update_status[OF tr] .
  have ok0: "sum_ok n (0, 0, 0)" by (simp add: sum_ok_def)
  have w1: "db ?w1 = Some ?d1" "snapshots ?w1 = snapshots w @ [?d1]" using d by simp_all
  obtain r2 w2 where lp: "process_loop env urls jid uid (0, 0, 0) ?w1 = (r2, w2)"
    by (cases "process_loop env urls jid uid (0, 0, 0) ?w1")
  have tr1: "db_tracks jid n Processing (0, 0, 0) (db ?w1)"
    using t1 d by (simp add: db_tracks_def)
  have "\<exists>c. advanced jid n ?w1 w2 c \<and>
          (case r2 of Inr r \<Rightarrow> r = c \<and> fst c = length urls | Inl x \<Rightarrow> fst c < length urls)"
    using process_loop_steps[OF rel lp tr1 ok0] le by (simp cong: sum.case_cong)
  then obtain c where
    adv: "advanced jid n ?w1 w2 c"
    and r2: "case r2 of Inr r \<Rightarrow> r = c \<and> fst c = length urls | Inl x \<Rightarrow> fst c < length urls"
    by blast
  from adv obtain new where new: "snapshots w2 = snapshots ?w1 @ new"
    "all_tracked jid n Processing new" by (auto simp: advanced_def)
  from adv w1 obtain d2 where d2: "db w2 = Some d2" "tracks jid n Processing c d2"
    by (cases "db w2") (auto simp: advanced_def db_tracks_def)
  from adv have okc: "sum_ok n c" by (simp add: advanced_def)
  let ?mid = "?d1 # new"
  have mid: "all_tracked jid n Processing ?mid"
    using new(2) t1 ok0 by (auto simp: all_tracked_def simp del: split_paired_Ex)
  show ?thesis
  proof (cases r2)
    case (Inl x)
    with run lp have res: "res = Inl x" and w': "w' = w2"
      by (simp_all add: processUrls_rel[OF rel] Let_def)
    from r2 Inl have fc: "fst c < length urls" by simp
    have "snapshots w' = snapshots w @ ?mid \<and> fst c < length urls \<and>
          (\<exists>d2. db w' = Some d2 \<and> tracks jid n Processing c d2)"
      unfolding w' using new(1) w1(2) d2 fc by simp
    with mid okc res show ?thesis
      by (intro exI[of _ ?mid] exI[of _ c]) simp
  next
    case (Inr cc)
    let ?dfin = "update_rows jid (status_update Completed (Some (clock w2))) d2"
    from Inr run lp have res: "res = Inr ()"
      and w': "w' = updateProcessingJob jid (status_update Completed (Some (clock w2))) w2"
      by (simp_all add: processUrls_rel[OF rel] Let_def)
    have tf: "tracks jid n Completed c ?dfin" using tracks_update_status[OF d2(2)] .
    have st: "\<forall>j \<in> set (processingJobs ?dfin). jobId j = jid \<longrightarrow> completedAt j \<noteq> None"
      using completed_stamp by fastforce
    have sn: "snapshots w' = snapshots w @ ?mid @ [?dfin]"
      unfolding w' using d2(1) new(1) w1(2) by simp
    have dbf: "db w' = Some ?dfin"
      unfolding w' using d2(1) by simp
    from r2 Inr have fc: "fst c = length urls" by simp
    have "fst c = length urls \<and>
          (\<exists>dfin. snapshots w' = snapshots w @ ?mid @ [dfin] \<and> db w' = Some dfin \<and>
             tracks jid n Completed c dfin \<and>
             (\<forall>j \<in> set (processingJobs dfin). jobId j = jid \<longrightarrow> completedAt j \<noteq> None))"
      using fc sn dbf tf st by blast
    with mid okc res show ?thesis
      by (intro exI[of _ ?mid] exI[of _ c]) simp
  qed
qed


lemma loop_error_step:
  assumes rel: "reliable env" and "normalizeUrl env url = Inr nurl"
    and "getCachedResult (db w) (hashUrl env nurl) uid (clock w) = None"
    and "retryWithBackoff (extractRaceResults env nurl) sleep 3 1000 w = (Inl err, w1)"
  shows "process_loop env (url # rest) jid uid (p, s, e) w =
         process_loop env rest jid uid (p + 1, s, e + 1)
           (updateProcessingJob jid (counters_update (p + 1) s (e + 1))
              (insertRaceResult
                 (error_row env nurl (hashUrl env nurl) (error_text err) (clock w1) uid) w1))"
  using assms by (simp add: process_url_rel[OF rel] on_error_rel[OF rel] Let_def)

lemma extractResults_cases:
  assumes rel: "reliable env" and run: "extractResults env urls uid jid w = (reply, w')"
  shows "(w' = w \<and> isl reply)
       \<or> (db w = None \<and> db w' = None \<and> snapshots w' = snapshots w \<and> \<not> isl reply)
       \<or> (\<exists>d res. db w = Some d \<and> jid \<notin> set (map jobId (processingJobs d)) \<and> \<not> isl reply \<and>
            processUrls env urls jid uid
              (commit (new_job jid (length urls) 0 0 0 Queued uid (clock w) d) w) = (res, w'))"
proof (cases "1 \<le> length urls \<and> length urls \<le> 100 \<and> list_all (zod_url env) urls")
  case False
  with run show ?thesis by (auto simp: extractResults_def)
next
  case valid: True
  show ?thesis
  proof (cases "db w")
    case None
    obtain res w2 where p: "processUrls env urls jid uid w = (res, w2)"
      by (cases "processUrls env urls jid uid w")
    from run valid None p have "w' = w2" "\<not> isl reply"
      by (auto simp: extractResults_def createProcessingJob_rel[OF rel])
    with processUrls_no_db[OF rel p None] None show ?thesis by simp
  next
    case (Some d)
    show ?thesis
    proof (cases "jid \<in> set (map jobId (processingJobs d))")
      case True
      with run valid Some show ?thesis
        by (auto simp: extractResults_def createProcessingJob_rel[OF rel])
    next
      case False
      let ?w1 = "commit (new_job jid (length urls) 0 0 0 Queued uid (clock w) d) w"
      obtain res w2 where p: "processUrls env urls jid uid ?w1 = (res, w2)"
        by (cases "processUrls env urls jid uid ?w1")
      from run valid Some False p have "w' = w2" "\<not> isl reply"
        by (auto simp: extractResults_def createProcessingJob_rel[OF rel])
      with p Some False show ?thesis by blast
    qed
  qed
qed

lemma extractResults_trace:
  assumes rel: "reliable env" and run: "extractResults env urls uid jid w = (reply, w')"
  shows "(written_since w w' = [] \<and> db w' = db w \<and> (isl reply \<or> db w = None))
       \<or> (\<exists>d0 mid c. \<not> isl reply \<and> tracks jid (length urls) Queued (0, 0, 0) d0 \<and>
             all_tracked jid (length urls) Processing mid \<and> mid \<noteq> [] \<and>
             sum_ok (length urls) c \<and>
             ((written_since w w' = d0 # mid \<and> fst c < length urls \<and>
                 \<not> list_all (\<lambda>u. url_parse env u \<noteq> None) urls \<and>
                 (\<exists>d2. db w' = Some d2 \<and> tracks jid (length urls) Processing c d2))
              \<or> (\<exists>dfin. written_since w w' = d0 # mid @ [dfin] \<and> db w' = Some dfin \<and>
                    fst c = length urls \<and> tracks jid (length urls) Completed c dfin \<and>
                    (\<forall>j \<in> set (processingJobs dfin). jobId j = jid \<longrightarrow> completedAt j \<noteq> None))))"
proof -
  from extractResults_cases[OF rel run] show ?thesis
  proof (elim disjE exE conjE)
    assume "w' = w" "isl reply"
    then show ?thesis by (simp add: written_since_def)
  next
    assume "db w = None" "db w' = None" "snapshots w' = snapshots w"
    then show ?thesis by (simp add: written_since_def)
  next
    fix d res
    assume ran: "db w = Some d" "jid \<notin> set (map jobId (processingJobs d))"
        "processUrls env urls jid uid
           (commit (new_job jid (length urls) 0 0 0 Queued uid (clock w) d) w) = (res, w')"
      and acc: "\<not> isl reply"
    let ?d0 = "new_job jid (length urls) 0 0 0 Queued uid (clock w) d"
    let ?w1 = "commit ?d0 w"
    have t0: "tracks jid (length urls) Queued (0, 0, 0) ?d0"
      using tracks_new_job[OF ran(2)] .
    have d1: "db ?w1 = Some ?d0" by simp
    from processUrls_trace[OF rel ran(3) d1 t0] obtain mid c where
      m: "all_tracked jid (length urls) Processing mid" "mid \<noteq> []" "sum_ok (length urls) c"
      and r: "case res of
              Inl x \<Rightarrow> snapshots w' = snapshots ?w1 @ mid \<and> fst c < length urls \<and>
                       (\<exists>d2. db w' = Some d2 \<and> tracks jid (length urls) Processing c d2)
            | Inr u \<Rightarrow> fst c = length urls \<and>
                       (\<exists>dfin. snapshots w' = snapshots ?w1 @ mid @ [dfin] \<and> db w' = Some dfin \<and>
                          tracks jid (length urls) Completed c dfin \<and>
                          (\<forall>j \<in> set (processingJobs dfin). jobId j = jid \<longrightarrow> completedAt j \<noteq> None))"
      by blast
    show ?thesis
    proof (cases res)
      case (Inl x)
      with r have "written_since w w' = ?d0 # mid" "fst c < length urls"
        "\<exists>d2. db w' = Some d2 \<and> tracks jid (length urls) Processing c d2"
        by (simp_all add: written_since_def)
      moreover have "\<not> list_all (\<lambda>u. url_parse env u \<noteq> None) urls"
        using processUrls_returns[OF rel, of urls jid uid ?w1] ran(3) Inl by auto
      ultimately show ?thesis using t0 m acc
        by (intro disjI2 exI[of _ ?d0] exI[of _ mid] exI[of _ c]) simp
    next
      case (Inr u)
      with r obtain dfin where "written_since w w' = ?d0 # mid @ [dfin]" "db w' = Some dfin"
        "fst c = length urls" "tracks jid (length urls) Completed c dfin"
        "\<forall>j \<in> set (processingJobs dfin). jobId j = jid \<longrightarrow> completedAt j \<noteq> None"
        by (auto simp: written_since_def)
      with t0 m acc show ?thesis
        by (intro disjI2 exI[of _ ?d0] exI[of _ mid] exI[of _ c]) simp
    qed
  qed
qed

section \<open>The status of the job when store calls may be rejected\<close>






















section \<open>Invalid URLs\<close>

lemma extractResults_rejects:
  "\<not> list_all (zod_url env) urls \<Longrightarrow>
   extractResults env urls uid jid w = (Inl (Error ''Invalid input''), w)"
  by (simp add: extractResults_def)

lemma accepted_batch_completes:
  assumes rel: "reliable env" and run: "extractResults env urls uid jid w = (reply, w')"
    and acc: "\<not> isl reply" and d: "db w \<noteq> None"
    and ok: "list_all (\<lambda>u. url_parse env u \<noteq> None) urls"
  shows "\<exists>d j. db w' = Some d \<and> getProcessingJob (Some d) jid = Some j \<and>
           status j = Completed \<and> processedUrls j = length urls \<and>
           successCount j + errorCount j = length urls"
proof -
  from extractResults_trace[OF rel run] show ?thesis
  proof (elim disjE exE conjE)
    assume "isl reply"
    with acc show ?thesis by simp
  next
    assume "db w = None"
    with d show ?thesis by simp
  next
    assume "\<not> list_all (\<lambda>u. url_parse env u \<noteq> None) urls"
    with ok show ?thesis by simp
  next
    fix c dfin
    assume a: "sum_ok (length urls) c" "db w' = Some dfin" "fst c = length urls"
      "tracks jid (length urls) Completed c dfin"
    from tracks_get[OF a(4)] obtain j where j: "getProcessingJob (Some dfin) jid = Some j"
      "status j = Completed" "(processedUrls j, successCount j, errorCount j) = c"
      by blast
    from j(3) a(1,3) have "processedUrls j = length urls"
      "successCount j + errorCount j = length urls"
      by (auto simp: sum_ok_def)
    with a(2) j(1,2) show ?thesis by blast
  qed
qed

text \<open>
  C1 (as amended). A batch holding a string that the validator of the submission does not
  accept as a URL is refused at submission: the call fails, no job is created and nothing
  is processed. Inside background processing, with a store that carries out every call, a
  URL that normalizes and whose extraction fails after the retries gets an error row with
  the failure's message, is counted as processed and as an error, and the loop goes on with
  the next URL; and for an accepted batch whose URLs all normalize the job ends completed
  with every URL counted.
\<close>

theorem invalid_url_refused_at_submission:
  "(\<not> list_all (zod_url env) urls \<longrightarrow>
      extractResults env urls uid jid w = (Inl (Error ''Invalid input''), w))
   \<and> (reliable env \<and> normalizeUrl env url = Inr nurl \<and>
      getCachedResult (db w) (hashUrl env nurl) uid (clock w) = None \<and>
      retryWithBackoff (extractRaceResults env nurl) sleep 3 1000 w = (Inl err, w1) \<longrightarrow>
      process_loop env (url # rest) jid uid (p, s, e) w =
        process_loop env rest jid uid (p + 1, s, e + 1)
          (updateProcessingJob jid (counters_update (p + 1) s (e + 1))
             (insertRaceResult
                (error_row env nurl (hashUrl env nurl) (error_text err) (clock w1) uid) w1)))
   \<and> (reliable env \<and> extractResults env urls uid jid w = (reply, w') \<and> \<not> isl reply \<and>
      db w \<noteq> None \<and> list_all (\<lambda>u. url_parse env u \<noteq> None) urls \<longrightarrow>
      (\<exists>d j. db w' = Some d \<and> getProcessingJob (Some d) jid = Some j \<and>
             status j = Completed \<and> processedUrls j = length urls \<and>
             successCount j + errorCount j = length urls))"
proof (intro conjI impI)
  assume "\<not> list_all (zod_url env) urls"
  then show "extractResults env urls uid jid w = (Inl (Error ''Invalid input''), w)"
    by (rule extractResults_rejects)
next
  assume "reliable env \<and> normalizeUrl env url = Inr nurl \<and>
      getCachedResult (db w) (hashUrl env nurl) uid (clock w) = None \<and>
      retryWithBackoff (extractRaceResults env nurl) sleep 3 1000 w = (Inl err, w1)"
  then show "process_loop env (url # rest) jid uid (p, s, e) w =
        process_loop env rest jid uid (p + 1, s, e + 1)
          (updateProcessingJob jid (counters_update (p + 1) s (e + 1))
             (insertRaceResult
                (error_row env nurl (hashUrl env nurl) (error_text err) (clock w1) uid) w1))"
    using loop_error_step by blast
next
  assume "reliable env \<and> extractResults env urls uid jid w = (reply, w') \<and> \<not> isl reply \<and>
      db w \<noteq> None \<and> list_all (\<lambda>u. url_parse env u \<noteq> None) urls"
  then show "\<exists>d j. db w' = Some d \<and> getProcessingJob (Some d) jid = Some j \<and>
             status j = Completed \<and> processedUrls j = length urls \<and>
             successCount j + errorCount j = length urls"
    using accepted_batch_completes[of env urls uid jid w reply w'] by blast
qed

theorem invalid_url_refused_at_submission_witness:
  "\<not> list_all (zod_url demo_env) [''https://sportstimingsolutions.in/x'', ''not-a-url'']
   \<and> extractResults demo_env [''https://sportstimingsolutions.in/x'', ''not-a-url''] 1 ''job1''
        start = (Inl (Error ''Invalid input''), start)
   \<and> fst (retryWithBackoff (extractRaceResults demo_env ''https://example.com/results'')
             sleep 3 1000 start)
       = Inl (Error ''Unsupported race timing platform: https://example.com/results'')
   \<and> fst (process_loop demo_env [''https://example.com/results''] ''job1'' 1 (0, 0, 0) start)
       = Inr (1, 0, 1)
   \<and> list_all (\<lambda>u. url_parse demo_env u \<noteq> None)
        [''https://sportstimingsolutions.in/x'', ''https://example.com/results'']
   \<and> (\<exists>d j. db mixed_run = Some d \<and> getProcessingJob (Some d) ''job1'' = Some j \<and>
             status j = Completed \<and> processedUrls j = 2 \<and> successCount j + errorCount j = 2)
   \<and> map (\<lambda>r. (r_url r, r_status r, r_errorMessage r))
        (case db mixed_run of None \<Rightarrow> [] | Some d \<Rightarrow> raceResults d)
       = [(''https://sportstimingsolutions.in/x'', ResultCompleted, None),
          (''https://example.com/results'', ResultError,
           Some ''Unsupported race timing platform: https://example.com/results'')]"
proof -
  let ?u = "''https://example.com/results''"
  let ?bad = "[''https://sportstimingsolutions.in/x'', ''not-a-url'']"
  let ?urls = "[''https://sportstimingsolutions.in/x'', ?u]"
  let ?r = "retryWithBackoff (extractRaceResults demo_env ?u) sleep 3 1000 start"
  let ?err = "Error ''Unsupported race timing platform: https://example.com/results''"
  let ?reply = "fst (extractResults demo_env ?urls 1 ''job1'' start)"
  have rel: "reliable demo_env" by (simp add: reliable_def demo_env_def)
  have bad: "\<not> list_all (zod_url demo_env) ?bad" by code_simp
  have n: "normalizeUrl demo_env ?u = Inr ?u" by code_simp
  have c: "getCachedResult (db start) (hashUrl demo_env ?u) 1 (clock start) = None" by code_simp
  have f: "fst ?r = Inl ?err" by code_simp
  then have r: "?r = (Inl ?err, snd ?r)" by (metis prod.collapse)
  have run: "extractResults demo_env ?urls 1 ''job1'' start = (?reply, mixed_run)"
    by (simp add: mixed_run_def)
  have acc: "\<not> isl ?reply" by code_simp
  have d: "db start \<noteq> None" by code_simp
  have ok: "list_all (\<lambda>u. url_parse demo_env u \<noteq> None) ?urls" by code_simp
  note t1 = invalid_url_refused_at_submission
    [of demo_env ?bad 1 "''job1''" start ?u ?u ?err "snd ?r" "[]" 0 0 0 ?reply mixed_run]
  note t2 = invalid_url_refused_at_submission
    [of demo_env ?urls 1 "''job1''" start ?u ?u ?err "snd ?r" "[]" 0 0 0 ?reply mixed_run]
  from t1 bad have rej:
    "extractResults demo_env ?bad 1 ''job1'' start = (Inl (Error ''Invalid input''), start)"
    by blast
  from t1 rel n c r have "process_loop demo_env [?u] ''job1'' 1 (0, 0, 0) start =
        process_loop demo_env [] ''job1'' 1 (0 + 1, 0, 0 + 1)
          (updateProcessingJob ''job1'' (counters_update (0 + 1) 0 (0 + 1))
             (insertRaceResult
                (error_row demo_env ?u (hashUrl demo_env ?u) (error_text ?err) (clock (snd ?r)) 1)
                (snd ?r)))"
    by blast
  then have step: "fst (process_loop demo_env [?u] ''job1'' 1 (0, 0, 0) start) = Inr (1, 0, 1)"
    by simp
  from t2 rel run acc d ok have fin:
    "\<exists>d j. db mixed_run = Some d \<and> getProcessingJob (Some d) ''job1'' = Some j \<and>
           status j = Completed \<and> processedUrls j = length ?urls \<and>
           successCount j + errorCount j = length ?urls"
    by blast
  have rows: "map (\<lambda>r. (r_url r, r_status r, r_errorMessage r))
        (case db mixed_run of None \<Rightarrow> [] | Some d \<Rightarrow> raceResults d)
       = [(''https://sportstimingsolutions.in/x'', ResultCompleted, None),
          (''https://example.com/results'', ResultError,
           Some ''Unsupported race timing platform: https://example.com/results'')]"
    by code_simp
  from fin have fin2:
    "\<exists>d j. db mixed_run = Some d \<and> getProcessingJob (Some d) ''job1'' = Some j \<and>
           status j = Completed \<and> processedUrls j = 2 \<and> successCount j + errorCount j = 2"
    by (simp add: numeral_2_eq_2)
  show ?thesis by (intro conjI) (rule bad rej f step ok fin2 rows)+
qed

text \<open>
  The claim as stated fails. Submitted, the batch
  \<open>[https://sportstimingsolutions.in/x, not-a-url]\<close> is refused: no job, no row. Handed to
  background processing directly, the second entry makes \<open>processUrls\<close> fail with the
  invalid-URL error: no error row is written, the entry is not counted, and the job stays
  in status processing.
\<close>

theorem invalid_url_recorded_counterexample:
  "extractResults demo_env [''https://sportstimingsolutions.in/x'', ''not-a-url''] 1 ''job1''
     start = (Inl (Error ''Invalid input''), start)
   \<and> getProcessingJob (db start) ''job1'' = None
   \<and> fst aborted_run = Inl (Error ''Invalid URL: not-a-url'')
   \<and> map_option (\<lambda>j. (status j, processedUrls j, successCount j, errorCount j, completedAt j))
        (getProcessingJob (db (snd aborted_run)) ''job1'') = Some (Processing, 1, 1, 0, None)
   \<and> map (\<lambda>r. (r_url r, r_status r))
        (case db (snd aborted_run) of None \<Rightarrow> [] | Some d \<Rightarrow> raceResults d)
       = [(''https://sportstimingsolutions.in/x'', ResultCompleted)]"
  by code_simp

section \<open>Result rows and the job they belong to\<close>

text \<open>
  C2, evaluated on the code. The same supported URL is submitted twice as job \<open>job1\<close> by
  user 1. Both URLs are processed and counted as successes and the job completes; one row
  is written (the second URL is served from the cache and writes none), the row carries no
  job id, and the results fetched for \<open>job1\<close> are empty.
\<close>

theorem job_results_missing_after_processing:
  "map_option (\<lambda>j. (status j, totalUrls j, processedUrls j, successCount j, errorCount j))
     (getProcessingJob (db repeat_run) ''job1'') = Some (Completed, 2, 2, 2, 0)
   \<and> map (\<lambda>r. (r_url r, r_jobId r, r_userId r, r_status r))
        (case db repeat_run of None \<Rightarrow> [] | Some d \<Rightarrow> raceResults d)
       = [(''https://sportstimingsolutions.in/x'', None, 1, ResultCompleted)]
   \<and> getResultsByJobId (db repeat_run) ''job1'' = []"
  by code_simp

section \<open>Counters at every observation point\<close>

text \<open>
  When the store carries out every call, every database state written from the submission
  on, and the state left at the end, holds the job's row with
  \<open>successCount + errorCount = processedUrls\<close> and \<open>processedUrls \<le> totalUrls\<close>, where
  \<open>totalUrls\<close> is the number of URLs submitted.
\<close>

lemma counters_consistent_if_store_reliable:
  assumes "reliable env" and "extractResults env urls uid jid w = (reply, w')"
  shows "(\<forall>d \<in> set (written_since w w'). \<forall>j \<in> set (processingJobs d).
            jobId j = jid \<longrightarrow> counters_ok j \<and> totalUrls j = length urls)
       \<and> (\<not> isl reply \<longrightarrow>
            (\<forall>d j. db w' = Some d \<and> j \<in> set (processingJobs d) \<and> jobId j = jid \<longrightarrow>
                   counters_ok j \<and> totalUrls j = length urls))"
proof -
  let ?n = "length urls"
  let ?good = "\<lambda>d. \<forall>j \<in> set (processingJobs d). jobId j = jid \<longrightarrow> counters_ok j \<and> totalUrls j = ?n"
  have tracked: "\<And>st c d. tracks jid ?n st c d \<Longrightarrow> sum_ok ?n c \<Longrightarrow> ?good d"
    using tracks_counters_ok by blast
  have mids: "\<And>mid d. all_tracked jid ?n Processing mid \<Longrightarrow> d \<in> set mid \<Longrightarrow> ?good d"
  proof -
    fix mid d
    assume "all_tracked jid ?n Processing mid" "d \<in> set mid"
    then obtain c where "sum_ok ?n c" "tracks jid ?n Processing c d"
      unfolding all_tracked_def by blast
    then show "?good d" using tracked by blast
  qed
  have ok0: "sum_ok ?n (0, 0, 0)" by (simp add: sum_ok_def)
  from extractResults_trace[OF assms] show ?thesis
  proof (elim disjE exE conjE)
    assume "written_since w w' = []" "db w' = db w" "isl reply"
    then show ?thesis by simp
  next
    assume "written_since w w' = []" "db w' = db w" "db w = None"
    then show ?thesis by simp
  next
    fix d0 mid c d2
    assume a: "tracks jid ?n Queued (0, 0, 0) d0" "all_tracked jid ?n Processing mid"
      "sum_ok ?n c" "written_since w w' = d0 # mid" "db w' = Some d2"
      "tracks jid ?n Processing c d2"
    have "?good d0" using tracked[OF a(1) ok0] .
    moreover have "\<forall>d \<in> set mid. ?good d" using mids[OF a(2)] by blast
    moreover have "?good d2" using tracked[OF a(6) a(3)] .
    ultimately show ?thesis using a(4,5) by simp
  next
    fix d0 mid c dfin
    assume a: "tracks jid ?n Queued (0, 0, 0) d0" "all_tracked jid ?n Processing mid"
      "sum_ok ?n c" "written_since w w' = d0 # mid @ [dfin]" "db w' = Some dfin"
      "tracks jid ?n Completed c dfin"
    have "?good d0" using tracked[OF a(1) ok0] .
    moreover have "\<forall>d \<in> set mid. ?good d" using mids[OF a(2)] by blast
    moreover have "?good dfin" using tracked[OF a(6) a(3)] .
    ultimately show ?thesis using a(4,5) by simp
  qed
qed

text \<open>
  C3, evaluated on the code. The same supported URL is submitted twice as job \<open>job1\<close> by
  user 1, and the store rejects one call: the counter update of the second URL, which is
  served from the cache. That update is awaited inside the \<open>try\<close> after both counters have
  been incremented, so the \<open>catch\<close> block takes the rejection for a failure of the URL: it
  inserts an error row for the URL and increments the error count, and the end of the loop
  body increments the processed count a second time. The next update, which the store
  carries out, writes 3 processed URLs, 2 successes and 1 error for a job of 2 URLs, and
  the job completes with these counters: \<open>processedUrls\<close> exceeds \<open>totalUrls\<close> in the last
  two states a poll can observe and in the state left at the end.
\<close>

theorem counters_exceed_total_after_rejected_update:
  "refusals faulty_run = 1
   \<and> map (\<lambda>d. map (\<lambda>j. (status j, totalUrls j, processedUrls j, successCount j, errorCount j))
                 (processingJobs d)) (written_since start faulty_run)
       = [ [(Queued, 2, 0, 0, 0)], [(Processing, 2, 0, 0, 0)], [(Processing, 2, 0, 0, 0)],
          [(Processing, 2, 1, 1, 0)], [(Processing, 2, 1, 1, 0)], [(Processing, 2, 3, 2, 1)],
          [(Completed, 2, 3, 2, 1)]]
   \<and> map_option (\<lambda>j. (status j, totalUrls j, processedUrls j, successCount j, errorCount j))
        (getProcessingJob (db faulty_run) ''job1'') = Some (Completed, 2, 3, 2, 1)
   \<and> map_option counters_ok (getProcessingJob (db faulty_run) ''job1'') = Some False
   \<and> map (\<lambda>r. (r_url r, r_status r, r_errorMessage r))
        (case db faulty_run of None \<Rightarrow> [] | Some d \<Rightarrow> raceResults d)
       = [(''https://sportstimingsolutions.in/x'', ResultCompleted, None),
          (''https://sportstimingsolutions.in/x'', ResultError,
           Some ''Lost connection to MySQL server during query'')]"
  by code_simp
section \<open>Pattern precedence\<close>

lemma matchFirst_Cons:
  "matchFirst text (p # ps) g =
     (case capture p text g of None \<Rightarrow> matchFirst text ps g | Some s \<Rightarrow> Some (trim s))"
  by (cases "p text") (auto simp: capture_def truthy_string_def split: option.splits)

lemma matchFirst_find:
  "matchFirst text ps g =
     (case find (\<lambda>p. capture p text g \<noteq> None) ps of
        None \<Rightarrow> None
      | Some p \<Rightarrow> map_option trim (capture p text g))"
proof (induction ps)
  case Nil
  show ?case by simp
next
  case (Cons p ps)
  show ?case
    unfolding matchFirst_Cons using Cons.IH
    by (cases "capture p text g") simp_all
qed

text \<open>
  C4. The patterns of a chain are tried in order, and the first one whose match succeeds
  with a non-empty designated capture group gives the value (its group, trimmed). When the
  first pattern \<open>A\<close> of a chain so matches, the chain yields what \<open>A\<close> alone yields, whatever
  follows it (in particular for a chain \<open>[A, B]\<close>). When no pattern of the chain so
  matches, the result is \<open>null\<close>; \<open>matchFirst\<close> has no failing branch.
\<close>

theorem matchFirst_first_match_wins:
  "matchFirst text ps g =
     (case find (\<lambda>p. capture p text g \<noteq> None) ps of
        None \<Rightarrow> None
      | Some p \<Rightarrow> map_option trim (capture p text g))
   \<and> (capture A text g \<noteq> None \<longrightarrow>
        matchFirst text [A, B] g = matchFirst text [A] g
        \<and> matchFirst text (A # rest) g = matchFirst text [A] g)
   \<and> ((\<forall>p \<in> set ps. capture p text g = None) \<longrightarrow> matchFirst text ps g = None)"
proof (intro conjI impI)
  show "matchFirst text ps g =
     (case find (\<lambda>p. capture p text g \<noteq> None) ps of
        None \<Rightarrow> None
      | Some p \<Rightarrow> map_option trim (capture p text g))"
    by (rule matchFirst_find)
next
  assume "capture A text g \<noteq> None"
  then show "matchFirst text [A, B] g = matchFirst text [A] g"
    unfolding matchFirst_Cons by (cases "capture A text g") simp_all
next
  assume "capture A text g \<noteq> None"
  then show "matchFirst text (A # rest) g = matchFirst text [A] g"
    unfolding matchFirst_Cons by (cases "capture A text g") simp_all
next
  assume "\<forall>p \<in> set ps. capture p text g = None"
  then show "matchFirst text ps g = None"
    by (induction ps) (simp_all add: matchFirst_Cons del: matchFirst.simps(2))
qed

theorem matchFirst_first_match_wins_witness:
  "capture (digits_after ''BIB No: '') ''BIB No: 42 Overall: 7'' 1 = Some ''42''
   \<and> capture (digits_after ''Overall: '') ''BIB No: 42 Overall: 7'' 1 = Some ''7''
   \<and> matchFirst ''BIB No: 42 Overall: 7''
        [digits_after ''BIB No: '', digits_after ''Overall: ''] 1 = Some ''42''
   \<and> matchFirst ''BIB No: 42 Overall: 7'' [digits_after ''BIB No: ''] 1 = Some ''42''
   \<and> capture (digits_after ''Pace: '') ''BIB No: 42 Overall: 7'' 1 = None
   \<and> capture (digits_after ''Rank: '') ''BIB No: 42 Overall: 7'' 1 = None
   \<and> matchFirst ''BIB No: 42 Overall: 7''
        [digits_after ''Pace: '', digits_after ''Rank: ''] 1 = None"
proof -
  have a: "capture (digits_after ''BIB No: '') ''BIB No: 42 Overall: 7'' 1 = Some ''42''"
    by code_simp
  have b: "capture (digits_after ''Overall: '') ''BIB No: 42 Overall: 7'' 1 = Some ''7''"
    by code_simp
  have c: "capture (digits_after ''Pace: '') ''BIB No: 42 Overall: 7'' 1 = None"
    by code_simp
  have d: "capture (digits_after ''Rank: '') ''BIB No: 42 Overall: 7'' 1 = None"
    by code_simp
  have one: "matchFirst ''BIB No: 42 Overall: 7'' [digits_after ''BIB No: ''] 1 = Some ''42''"
    by code_simp
  note t = matchFirst_first_match_wins
    [of "''BIB No: 42 Overall: 7''" "[digits_after ''Pace: '', digits_after ''Rank: '']" 1
        "digits_after ''BIB No: ''" "digits_after ''Overall: ''" "[]"]
  from t a have two: "matchFirst ''BIB No: 42 Overall: 7''
        [digits_after ''BIB No: '', digits_after ''Overall: ''] 1
      = matchFirst ''BIB No: 42 Overall: 7'' [digits_after ''BIB No: ''] 1"
    by simp
  from t c d have none: "matchFirst ''BIB No: 42 Overall: 7''
        [digits_after ''Pace: '', digits_after ''Rank: ''] 1 = None"
    by simp
  show ?thesis using a b c d one two none by simp
qed

section \<open>Retry: invocations, waits and the surfaced failure\<close>

lemma invocations_schedule: "invocations (schedule d i rs) = rs"
  by (induction d i rs rule: schedule.induct) simp_all

lemma schedule_Cons:
  "rs \<noteq> [] \<Longrightarrow> schedule d i (r # rs) = Invoked r # Waited (d * 2 ^ i) # schedule d (Suc i) rs"
  by (cases rs) simp_all

lemma retry_loop_observed:
  "retry_loop (observe fn) observe_sleep m d a l (s, log) = (r, (s', log')) \<Longrightarrow> 0 \<le> a \<Longrightarrow>
   \<exists>new. log' = log @ schedule d (nat a) new
     \<and> int (length new) \<le> max 0 (m - a)
     \<and> (\<forall>x \<in> set (butlast new). isl x)
     \<and> (new \<noteq> [] \<longrightarrow> r = surfaced (last new))
     \<and> (new = [] \<longrightarrow> r = Inl (or_max_retries l))
     \<and> (isl r \<longrightarrow> int (length new) = max 0 (m - a))
     \<and> (a < m \<longrightarrow> new \<noteq> [])"
proof (induction "nat (m - a)" arbitrary: a l s log)
  case 0
  then have "\<not> a < m" by simp
  with 0(2) show ?case
    by (simp add: retry_loop.simps[of _ _ m d a])
next
  case (Suc n)
  then have lt: "a < m" by simp
  obtain r1 s1 where f: "fn s = (r1, s1)" by (cases "fn s")
  show ?case
  proof (cases r1)
    case (Inr v)
    with lt f Suc(3) have "log' = log @ [Invoked (Inr v)]" "r = Inr v"
      by (auto simp add: retry_loop.simps[of _ _ m d a] observe_def)
    then show ?thesis using lt
      by (intro exI[of _ "[Inr v]"]) (simp add: surfaced_def)
  next
    case (Inl e)
    let ?log1 = "if a < m - 1 then log @ [Invoked (Inl e), Waited (d * 2 ^ nat a)]
                 else log @ [Invoked (Inl e)]"
    from lt f Inl Suc(3)
    have run: "retry_loop (observe fn) observe_sleep m d (a + 1) (Some e) (s1, ?log1)
                 = (r, (s', log'))"
      by (simp add: retry_loop.simps[of _ _ m d a] observe_def observe_sleep_def split: if_splits)
    have n: "n = nat (m - (a + 1))" using Suc(2) by simp
    from Suc(1)[OF n run] Suc(4)
    obtain new where new: "log' = ?log1 @ schedule d (nat (a + 1)) new"
      "int (length new) \<le> max 0 (m - (a + 1))"
      "\<forall>x \<in> set (butlast new). isl x"
      "new \<noteq> [] \<longrightarrow> r = surfaced (last new)"
      "new = [] \<longrightarrow> r = Inl (or_max_retries (Some e))"
      "isl r \<longrightarrow> int (length new) = max 0 (m - (a + 1))"
      "a + 1 < m \<longrightarrow> new \<noteq> []"
      by auto
    have a1: "nat (a + 1) = Suc (nat a)" using Suc(4) by simp
    have lg: "log' = log @ schedule d (nat a) (Inl e # new)"
    proof (cases "a < m - 1")
      case True
      with new(7) have ne: "new \<noteq> []" by simp
      from True new(1) show ?thesis by (simp add: schedule_Cons[OF ne] a1)
    next
      case False
      with new(2) have "new = []" by simp
      with False new(1) show ?thesis by simp
    qed
    have lastr: "r = surfaced (last (Inl e # new))"
      using new(4,5) by (cases "new = []") (simp_all add: surfaced_def)
    show ?thesis
      apply (rule exI[of _ "Inl e # new"])
      using new(2,3,6) lg lastr lt by (auto simp: butlast_snoc)
  qed
qed

lemma retry_fails_twice_then_succeeds:
  assumes "fn s0 = (Inl e1, s1)" "fn s1 = (Inl e2, s2)" "fn s2 = (Inr v, s3)"
  shows "retryWithBackoff (observe fn) observe_sleep 3 d (s0, [])
           = (Inr v, (s3, [Invoked (Inl e1), Waited d, Invoked (Inl e2), Waited (d * 2),
                          Invoked (Inr v)]))"
  using assms
  by (simp add: retryWithBackoff_def retry_loop.simps[of _ _ 3 d] observe_def observe_sleep_def)

text \<open>
  C5 (as amended). Run with \<open>maxRetries\<close> attempts and initial delay \<open>initialDelay\<close>, the
  retry function produces exactly a backoff schedule: it invokes the operation at most
  \<open>maxRetries\<close> times (never, when that is not positive), every invocation but the last one
  made has failed, and between the invocation of index \<open>i\<close> and the next one, and nowhere
  else, it waits \<open>initialDelay * 2^i\<close>. It throws only after \<open>maxRetries\<close> invocations. What
  it returns is the outcome of the last invocation, with one exception: a last failure that
  is a falsy value is replaced by the error \<open>Max retries exceeded\<close> (a truthy failure, as
  every \<open>Error\<close> object is, is thrown as it is). An operation that fails twice and then
  succeeds, under 3 attempts, gives the success after exactly 3 invocations, with waits of
  \<open>initialDelay\<close> and \<open>2 * initialDelay\<close> between them.
\<close>

theorem retryWithBackoff_attempts_and_waits:
  "(retryWithBackoff (observe fn) observe_sleep maxRetries initialDelay (s, [])
      = (r, (s', log)) \<longrightarrow>
      log = schedule initialDelay 0 (invocations log)
      \<and> int (length (invocations log)) \<le> max 0 maxRetries
      \<and> (\<forall>x \<in> set (butlast (invocations log)). isl x)
      \<and> (invocations log \<noteq> [] \<longrightarrow> r = surfaced (last (invocations log)))
      \<and> (invocations log = [] \<longrightarrow> r = Inl (Error ''Max retries exceeded''))
      \<and> (isl r \<longrightarrow> int (length (invocations log)) = max 0 maxRetries))
   \<and> (surfaced (Inr v :: error + 'a) = Inr v)
   \<and> (truthy_error e \<longrightarrow> surfaced (Inl e :: error + 'a) = Inl e)
   \<and> (\<not> truthy_error e \<longrightarrow>
        surfaced (Inl e :: error + 'a) = Inl (Error ''Max retries exceeded''))
   \<and> (fn s0 = (Inl e1, s1) \<and> fn s1 = (Inl e2, s2) \<and> fn s2 = (Inr v, s3) \<longrightarrow>
      retryWithBackoff (observe fn) observe_sleep 3 initialDelay (s0, [])
        = (Inr v, (s3, [Invoked (Inl e1), Waited initialDelay, Invoked (Inl e2),
                        Waited (initialDelay * 2), Invoked (Inr v)])))"
proof (intro conjI impI)
  assume run: "retryWithBackoff (observe fn) observe_sleep maxRetries initialDelay (s, [])
      = (r, (s', log))"
  then have "retry_loop (observe fn) observe_sleep maxRetries initialDelay 0 None (s, [])
      = (r, (s', log))"
    by (simp add: retryWithBackoff_def)
  from retry_loop_observed[OF this]
  obtain new where new: "log = schedule initialDelay 0 new"
      "int (length new) \<le> max 0 maxRetries"
      "\<forall>x \<in> set (butlast new). isl x"
      "new \<noteq> [] \<longrightarrow> r = surfaced (last new)"
      "new = [] \<longrightarrow> r = Inl (or_max_retries None)"
      "isl r \<longrightarrow> int (length new) = max 0 maxRetries"
    by auto
  from new(1) have inv: "invocations log = new" by (simp add: invocations_schedule)
  from new(1) inv show "log = schedule initialDelay 0 (invocations log)" by simp
  from new(2) inv show "int (length (invocations log)) \<le> max 0 maxRetries" by simp
  from new(3) inv show "\<forall>x \<in> set (butlast (invocations log)). isl x" by simp
  { assume "invocations log \<noteq> []"
    with new(4) inv show "r = surfaced (last (invocations log))" by simp }
  { assume "invocations log = []"
    with new(5) inv show "r = Inl (Error ''Max retries exceeded'')"
      by (simp add: or_max_retries_def) }
  { assume "isl r"
    with new(6) inv show "int (length (invocations log)) = max 0 maxRetries" by simp }
next
  show "surfaced (Inr v :: error + 'a) = Inr v" by (simp add: surfaced_def)
next
  assume "truthy_error e"
  then show "surfaced (Inl e :: error + 'a) = Inl e"
    by (simp add: surfaced_def or_max_retries_def)
next
  assume "\<not> truthy_error e"
  then show "surfaced (Inl e :: error + 'a) = Inl (Error ''Max retries exceeded'')"
    by (simp add: surfaced_def or_max_retries_def)
next
  assume "fn s0 = (Inl e1, s1) \<and> fn s1 = (Inl e2, s2) \<and> fn s2 = (Inr v, s3)"
  then show "retryWithBackoff (observe fn) observe_sleep 3 initialDelay (s0, [])
        = (Inr v, (s3, [Invoked (Inl e1), Waited initialDelay, Invoked (Inl e2),
                        Waited (initialDelay * 2), Invoked (Inr v)]))"
    by (simp add: retry_fails_twice_then_succeeds)
qed

theorem retryWithBackoff_attempts_and_waits_witness:
  "retryWithBackoff (observe flaky) observe_sleep 3 1000 (0, [])
     = (Inr ''rendered'',
        (3, [Invoked (Inl (Error ''Timeout 30000ms exceeded'')), Waited 1000,
             Invoked (Inl (Error ''Timeout 30000ms exceeded'')), Waited 2000,
             Invoked (Inr ''rendered'')]))
   \<and> invocations [Invoked (Inl (Error ''Timeout 30000ms exceeded'')), Waited 1000,
             Invoked (Inl (Error ''Timeout 30000ms exceeded'')), Waited 2000,
             Invoked (Inr ''rendered'' :: error + string)]
       = [Inl (Error ''Timeout 30000ms exceeded''), Inl (Error ''Timeout 30000ms exceeded''),
          Inr ''rendered'']
   \<and> int (length (invocations [Invoked (Inl (Error ''Timeout 30000ms exceeded'')), Waited 1000,
             Invoked (Inl (Error ''Timeout 30000ms exceeded'')), Waited 2000,
             Invoked (Inr ''rendered'' :: error + string)])) \<le> max 0 3
   \<and> truthy_error (Error ''Timeout 30000ms exceeded'')
   \<and> surfaced (Inl (Error ''Timeout 30000ms exceeded'') :: error + string)
       = Inl (Error ''Timeout 30000ms exceeded'')
   \<and> \<not> truthy_error Thrown_undefined
   \<and> surfaced (Inl Thrown_undefined :: error + string) = Inl (Error ''Max retries exceeded'')"
proof -
  let ?log = "[Invoked (Inl (Error ''Timeout 30000ms exceeded'')), Waited 1000,
             Invoked (Inl (Error ''Timeout 30000ms exceeded'')), Waited 2000,
             Invoked (Inr ''rendered'' :: error + string)]"
  have f: "flaky 0 = (Inl (Error ''Timeout 30000ms exceeded''), 1)
         \<and> flaky 1 = (Inl (Error ''Timeout 30000ms exceeded''), 2)
         \<and> flaky 2 = (Inr ''rendered'', 3)"
    by (simp add: flaky_def)
  note t = retryWithBackoff_attempts_and_waits
    [of flaky 3 1000 0 "Inr ''rendered''" 3 ?log "''rendered''"
        "Error ''Timeout 30000ms exceeded''"
        0 "Error ''Timeout 30000ms exceeded''" 1 "Error ''Timeout 30000ms exceeded''" 2 3]
  note u = retryWithBackoff_attempts_and_waits
    [of flaky 3 1000 0 "Inr ''rendered''" 3 ?log "''rendered''" Thrown_undefined
        0 "Error ''Timeout 30000ms exceeded''" 1 "Error ''Timeout 30000ms exceeded''" 2 3]
  from t f have run: "retryWithBackoff (observe flaky) observe_sleep 3 1000 (0, [])
     = (Inr ''rendered'', (3, ?log))"
    by simp
  have inv: "invocations ?log
       = [Inl (Error ''Timeout 30000ms exceeded''), Inl (Error ''Timeout 30000ms exceeded''),
          Inr ''rendered'']"
    by simp
  from t run have len: "int (length (invocations ?log)) \<le> max 0 3" by blast
  have tr: "truthy_error (Error ''Timeout 30000ms exceeded'')" by simp
  from t tr have s1: "surfaced (Inl (Error ''Timeout 30000ms exceeded'') :: error + string)
       = Inl (Error ''Timeout 30000ms exceeded'')"
    by blast
  have fl: "\<not> truthy_error Thrown_undefined" by simp
  from u fl have s2: "surfaced (Inl Thrown_undefined :: error + string)
       = Inl (Error ''Max retries exceeded'')"
    by blast
  show ?thesis by (intro conjI) (rule run inv len tr s1 fl s2)+
qed

text \<open>
  The claim as stated fails: an operation that rejects with \<open>undefined\<close> on each of its
  three invocations does not get its last failure back; the error thrown after exhaustion
  is \<open>Max retries exceeded\<close>.
\<close>

theorem last_failure_surfaced_counterexample:
  "retryWithBackoff (observe rejects_undefined) observe_sleep 3 1000 (0, [])
     = (Inl (Error ''Max retries exceeded''),
        (3, [Invoked (Inl Thrown_undefined), Waited 1000, Invoked (Inl Thrown_undefined),
             Waited 2000, Invoked (Inl Thrown_undefined)]))
   \<and> last (invocations [Invoked (Inl Thrown_undefined), Waited 1000,
             Invoked (Inl Thrown_undefined), Waited 2000,
             Invoked (Inl Thrown_undefined :: error + string)])
       = Inl Thrown_undefined
   \<and> (Inl (Error ''Max retries exceeded'') :: error + string) \<noteq> Inl Thrown_undefined"
  by code_simp

section \<open>Cache lookup\<close>

lemma getCachedResult_Some:
  "getCachedResult dbo h u now = Some r \<Longrightarrow>
   (\<exists>d. dbo = Some d \<and> r \<in> set (raceResults d)) \<and> r_urlHash r = h \<and> r_userId r = u \<and>
   r_status r = ResultCompleted \<and> now < r_expiresAt r"
proof -
  assume a: "getCachedResult dbo h u now = Some r"
  then obtain d where d: "dbo = Some d" by (cases dbo) (auto simp: getCachedResult_def)
  let ?P = "\<lambda>r. r_urlHash r = h \<and> r_userId r = u \<and> r_expiresAt r > now \<and>
                r_status r = ResultCompleted"
  from a d obtain rs where "filter ?P (raceResults d) = r # rs"
    by (cases "filter ?P (raceResults d)") (auto simp: getCachedResult_def)
  then have "r \<in> set (filter ?P (raceResults d))" by simp
  with d show ?thesis by auto
qed

lemma getCachedResult_hit:
  assumes "r \<in> set (raceResults d)" "r_urlHash r = h" "r_userId r = u"
    "r_status r = ResultCompleted" "now < r_expiresAt r"
  shows "getCachedResult (Some d) h u now \<noteq> None"
proof -
  let ?P = "\<lambda>r. r_urlHash r = h \<and> r_userId r = u \<and> r_expiresAt r > now \<and>
                r_status r = ResultCompleted"
  from assms have "r \<in> set (filter ?P (raceResults d))" by simp
  then have "filter ?P (raceResults d) \<noteq> []" by (metis empty_iff empty_set)
  then show ?thesis
    by (cases "filter ?P (raceResults d)") (auto simp: getCachedResult_def)
qed

text \<open>
  C6. A lookup returns a row exactly when the table holds a row of that owner and URL hash
  that is marked completed and whose expiry is after \<open>now\<close>; the row returned is such a
  row. For a completed row, a lookup one second (1000 ms) before its expiry hits; a lookup
  one second after the expiry misses, when no completed row of the same owner and hash
  expires later.
  A row returned to one owner is never returned to another.
\<close>

theorem getCachedResult_hit_iff:
  "(getCachedResult dbo h u now \<noteq> None \<longleftrightarrow>
      (\<exists>d r. dbo = Some d \<and> r \<in> set (raceResults d) \<and> r_urlHash r = h \<and> r_userId r = u \<and>
             r_status r = ResultCompleted \<and> now < r_expiresAt r))
   \<and> (getCachedResult dbo h u now = Some r \<longrightarrow>
        (\<exists>d. dbo = Some d \<and> r \<in> set (raceResults d)) \<and> r_urlHash r = h \<and> r_userId r = u \<and>
        r_status r = ResultCompleted \<and> now < r_expiresAt r)
   \<and> (x \<in> set (raceResults d) \<and> r_status x = ResultCompleted \<longrightarrow>
        getCachedResult (Some d) (r_urlHash x) (r_userId x) (r_expiresAt x - 1000) \<noteq> None)
   \<and> (x \<in> set (raceResults d) \<and>
        (\<forall>y \<in> set (raceResults d). r_urlHash y = r_urlHash x \<and> r_userId y = r_userId x \<and>
            r_status y = ResultCompleted \<longrightarrow> r_expiresAt y \<le> r_expiresAt x) \<longrightarrow>
        getCachedResult (Some d) (r_urlHash x) (r_userId x) (r_expiresAt x + 1000) = None)
   \<and> (u \<noteq> u' \<and> getCachedResult dbo h u now = Some r \<longrightarrow>
        getCachedResult dbo h' u' now' \<noteq> Some r)"
proof (intro conjI impI)
  show "getCachedResult dbo h u now \<noteq> None \<longleftrightarrow>
      (\<exists>d r. dbo = Some d \<and> r \<in> set (raceResults d) \<and> r_urlHash r = h \<and> r_userId r = u \<and>
             r_status r = ResultCompleted \<and> now < r_expiresAt r)"
  proof
    assume "getCachedResult dbo h u now \<noteq> None"
    then obtain r where "getCachedResult dbo h u now = Some r" by auto
    from getCachedResult_Some[OF this] show "\<exists>d r. dbo = Some d \<and> r \<in> set (raceResults d) \<and>
        r_urlHash r = h \<and> r_userId r = u \<and> r_status r = ResultCompleted \<and> now < r_expiresAt r"
      by blast
  next
    assume "\<exists>d r. dbo = Some d \<and> r \<in> set (raceResults d) \<and> r_urlHash r = h \<and> r_userId r = u \<and>
             r_status r = ResultCompleted \<and> now < r_expiresAt r"
    then show "getCachedResult dbo h u now \<noteq> None" using getCachedResult_hit by blast
  qed
next
  assume a: "getCachedResult dbo h u now = Some r"
  from getCachedResult_Some[OF a] show "\<exists>d. dbo = Some d \<and> r \<in> set (raceResults d)"
    "r_urlHash r = h" "r_userId r = u" "r_status r = ResultCompleted" "now < r_expiresAt r"
    by simp_all
next
  assume "x \<in> set (raceResults d) \<and> r_status x = ResultCompleted"
  then show "getCachedResult (Some d) (r_urlHash x) (r_userId x) (r_expiresAt x - 1000) \<noteq> None"
    using getCachedResult_hit[of x d "r_urlHash x" "r_userId x" "r_expiresAt x - 1000"] by simp
next
  assume a: "x \<in> set (raceResults d) \<and>
        (\<forall>y \<in> set (raceResults d). r_urlHash y = r_urlHash x \<and> r_userId y = r_userId x \<and>
            r_status y = ResultCompleted \<longrightarrow> r_expiresAt y \<le> r_expiresAt x)"
  show "getCachedResult (Some d) (r_urlHash x) (r_userId x) (r_expiresAt x + 1000) = None"
  proof (rule ccontr)
    assume "getCachedResult (Some d) (r_urlHash x) (r_userId x) (r_expiresAt x + 1000) \<noteq> None"
    then obtain r where
      "getCachedResult (Some d) (r_urlHash x) (r_userId x) (r_expiresAt x + 1000) = Some r"
      by auto
    from getCachedResult_Some[OF this] have "r \<in> set (raceResults d)"
      "r_urlHash r = r_urlHash x" "r_userId r = r_userId x" "r_status r = ResultCompleted"
      "r_expiresAt x + 1000 < r_expiresAt r"
      by auto
    with a show False by fastforce
  qed
next
  assume a: "u \<noteq> u' \<and> getCachedResult dbo h u now = Some r"
  show "getCachedResult dbo h' u' now' \<noteq> Some r"
  proof
    assume "getCachedResult dbo h' u' now' = Some r"
    from getCachedResult_Some[OF this] have "r_userId r = u'" by simp
    moreover from a getCachedResult_Some[of dbo h u now r] have "r_userId r = u" by simp
    ultimately show False using a by simp
  qed
qed

theorem getCachedResult_hit_iff_witness:
  "getCachedResult (Some cache_db) (r_urlHash (cached_row 1)) 1 1700086404000 = Some (cached_row 1)
   \<and> r_expiresAt (cached_row 1) = 1700086405000
   \<and> getCachedResult (Some cache_db) (r_urlHash (cached_row 1)) 1 (1700086405000 - 1000) \<noteq> None
   \<and> getCachedResult (Some cache_db) (r_urlHash (cached_row 1)) 1 (1700086405000 + 1000) = None
   \<and> getCachedResult (Some cache_db) (r_urlHash (cached_row 1)) 2 1700086404000 = Some (cached_row 2)
   \<and> getCachedResult (Some cache_db) (r_urlHash (cached_row 1)) 2 1700086404000
       \<noteq> Some (cached_row 1)
   \<and> getCachedResult None (r_urlHash (cached_row 1)) 1 1700086404000 = None"
proof -
  let ?h = "r_urlHash (cached_row 1)"
  note t = getCachedResult_hit_iff
    [of "Some cache_db" ?h 1 1700086404000 "cached_row 1" "cached_row 1" cache_db 2 ?h
        1700086404000]
  have hit: "getCachedResult (Some cache_db) ?h 1 1700086404000 = Some (cached_row 1)"
    by code_simp
  have hit2: "getCachedResult (Some cache_db) ?h 2 1700086404000 = Some (cached_row 2)"
    by code_simp
  have nodb: "getCachedResult None ?h 1 1700086404000 = None" by code_simp
  have ex: "r_expiresAt (cached_row 1) = 1700086405000" by code_simp
  have uid: "r_userId (cached_row 1) = 1" by code_simp
  have mem: "cached_row 1 \<in> set (raceResults cache_db) \<and> r_status (cached_row 1) = ResultCompleted"
    by code_simp
  have latest: "\<forall>y \<in> set (raceResults cache_db).
      r_urlHash y = ?h \<and> r_userId y = r_userId (cached_row 1) \<and>
      r_status y = ResultCompleted \<longrightarrow> r_expiresAt y \<le> r_expiresAt (cached_row 1)"
    by code_simp
  from t mem have "getCachedResult (Some cache_db) ?h (r_userId (cached_row 1))
                     (r_expiresAt (cached_row 1) - 1000) \<noteq> None"
    by blast
  then have before: "getCachedResult (Some cache_db) ?h 1 (1700086405000 - 1000) \<noteq> None"
    unfolding ex uid .
  from t mem latest have "getCachedResult (Some cache_db) ?h (r_userId (cached_row 1))
                     (r_expiresAt (cached_row 1) + 1000) = None"
    by blast
  then have after: "getCachedResult (Some cache_db) ?h 1 (1700086405000 + 1000) = None"
    unfolding ex uid .
  from t hit have other: "getCachedResult (Some cache_db) ?h 2 1700086404000 \<noteq> Some (cached_row 1)"
    by simp
  show ?thesis by (intro conjI) (rule hit ex before after hit2 other nodb)+
qed

section \<open>Unsupported platforms\<close>




section \<open>Normalization and hashing\<close>

lemma href_fragment:
  "href a = href (a\<lparr> url_fragment := None \<rparr>) @
            (case url_fragment a of None \<Rightarrow> [] | Some f \<Rightarrow> ''#'' @ f)"
  by (simp add: href_def split: option.splits)

lemma href_differs_in_fragment:
  assumes "a\<lparr> url_fragment := None \<rparr> = b\<lparr> url_fragment := None \<rparr>"
    and "url_fragment a \<noteq> url_fragment b"
  shows "href a \<noteq> href b"
proof
  assume "href a = href b"
  then have "(case url_fragment a of None \<Rightarrow> [] | Some f \<Rightarrow> ''#'' @ f) =
             (case url_fragment b of None \<Rightarrow> [] | Some f \<Rightarrow> ''#'' @ f)"
    using href_fragment[of a] href_fragment[of b] assms(1) by simp
  then have "url_fragment a = url_fragment b"
    by (cases "url_fragment a"; cases "url_fragment b") simp_all
  with assms(2) show False by simp
qed

text \<open>
  C8 (as amended). \<open>normalizeUrl\<close> and \<open>hashUrl\<close> are functions of their input, so
  repeated calls agree. The canonical form of a URL is the \<open>href\<close> of its parsed record:
  scheme, credentials, host, port, path, query and fragment. Two URLs that parse to the
  same record normalize to the same form and so hash to the same value; two URLs whose
  records differ only in the fragment agree on scheme, host, path and query and still
  normalize to different forms.
\<close>

theorem normalized_form_is_href:
  "(normalizeUrl env u = Inr n \<longrightarrow> (\<exists>a. url_parse env u = Some a \<and> n = href a))
   \<and> (url_parse env u = Some a \<and> url_parse env v = Some a \<longrightarrow>
        normalizeUrl env u = Inr (href a) \<and> normalizeUrl env v = Inr (href a) \<and>
        map_sum id (hashUrl env) (normalizeUrl env u)
          = map_sum id (hashUrl env) (normalizeUrl env v))
   \<and> (url_parse env u = Some a \<and> url_parse env v = Some b \<and>
        a\<lparr> url_fragment := None \<rparr> = b\<lparr> url_fragment := None \<rparr> \<and>
        url_fragment a \<noteq> url_fragment b \<longrightarrow>
        canonical_parts a = canonical_parts b \<and> normalizeUrl env u \<noteq> normalizeUrl env v)"
proof (intro conjI impI)
  assume "normalizeUrl env u = Inr n"
  then show "\<exists>a. url_parse env u = Some a \<and> n = href a"
    by (cases "url_parse env u") (auto simp: normalizeUrl_def)
next
  assume a: "url_parse env u = Some a \<and> url_parse env v = Some a"
  then show "normalizeUrl env u = Inr (href a)" "normalizeUrl env v = Inr (href a)"
    "map_sum id (hashUrl env) (normalizeUrl env u) = map_sum id (hashUrl env) (normalizeUrl env v)"
    by (simp_all add: normalizeUrl_def)
next
  assume a: "url_parse env u = Some a \<and> url_parse env v = Some b \<and>
        a\<lparr> url_fragment := None \<rparr> = b\<lparr> url_fragment := None \<rparr> \<and>
        url_fragment a \<noteq> url_fragment b"
  then have eq: "a\<lparr> url_fragment := None \<rparr> = b\<lparr> url_fragment := None \<rparr>" by simp
  have "canonical_parts a = canonical_parts (a\<lparr> url_fragment := None \<rparr>)"
    by (simp add: canonical_parts_def)
  also have "\<dots> = canonical_parts (b\<lparr> url_fragment := None \<rparr>)" using eq by simp
  also have "\<dots> = canonical_parts b" by (simp add: canonical_parts_def)
  finally show "canonical_parts a = canonical_parts b" .
  from a href_differs_in_fragment[of a b] show "normalizeUrl env u \<noteq> normalizeUrl env v"
    by (simp add: normalizeUrl_def)
qed

theorem normalized_form_is_href_witness:
  "normalizeUrl demo_env ''HTTPS://EXAMPLE.com/r#a'' = Inr ''https://example.com/r#a''
   \<and> normalizeUrl demo_env ''https://example.com/r#a'' = Inr ''https://example.com/r#a''
   \<and> map_sum id (hashUrl demo_env) (normalizeUrl demo_env ''HTTPS://EXAMPLE.com/r#a'')
       = map_sum id (hashUrl demo_env) (normalizeUrl demo_env ''https://example.com/r#a'')
   \<and> url_parse demo_env ''https://example.com/r#b''
       = Some (https_url ''example.com'' ''/r'' (Some ''b''))
   \<and> normalizeUrl demo_env ''https://example.com/r#a''
       \<noteq> normalizeUrl demo_env ''https://example.com/r#b''"
proof -
  let ?a = "https_url ''example.com'' ''/r'' (Some ''a'')"
  let ?b = "https_url ''example.com'' ''/r'' (Some ''b'')"
  have pa: "url_parse demo_env ''https://example.com/r#a'' = Some ?a" by code_simp
  have pA: "url_parse demo_env ''HTTPS://EXAMPLE.com/r#a'' = Some ?a" by code_simp
  have pb: "url_parse demo_env ''https://example.com/r#b'' = Some ?b" by code_simp
  have h: "href ?a = ''https://example.com/r#a''" by code_simp
  have rest: "?a\<lparr> url_fragment := None \<rparr> = ?b\<lparr> url_fragment := None \<rparr>"
    by (simp add: https_url_def)
  have frag: "url_fragment ?a \<noteq> url_fragment ?b" by (simp add: https_url_def)
  note t1 = normalized_form_is_href
    [of demo_env "''HTTPS://EXAMPLE.com/r#a''" "''https://example.com/r#a''" ?a
        "''https://example.com/r#a''" ?a]
  note t2 = normalized_form_is_href
    [of demo_env "''https://example.com/r#a''" "''https://example.com/r#a''" ?a
        "''https://example.com/r#b''" ?b]
  from t1 pa pA have
    "normalizeUrl demo_env ''HTTPS://EXAMPLE.com/r#a'' = Inr (href ?a)"
    "normalizeUrl demo_env ''https://example.com/r#a'' = Inr (href ?a)"
    "map_sum id (hashUrl demo_env) (normalizeUrl demo_env ''HTTPS://EXAMPLE.com/r#a'')
       = map_sum id (hashUrl demo_env) (normalizeUrl demo_env ''https://example.com/r#a'')"
    by blast+
  then have same: "normalizeUrl demo_env ''HTTPS://EXAMPLE.com/r#a'' = Inr ''https://example.com/r#a''"
    "normalizeUrl demo_env ''https://example.com/r#a'' = Inr ''https://example.com/r#a''"
    "map_sum id (hashUrl demo_env) (normalizeUrl demo_env ''HTTPS://EXAMPLE.com/r#a'')
       = map_sum id (hashUrl demo_env) (normalizeUrl demo_env ''https://example.com/r#a'')"
    unfolding h by simp_all
  from t2 pa pb rest frag have diff: "normalizeUrl demo_env ''https://example.com/r#a''
       \<noteq> normalizeUrl demo_env ''https://example.com/r#b''"
    by blast
  show ?thesis by (intro conjI) (rule same pb diff)+
qed

text \<open>
  The claim as stated fails: \<open>https://example.com/r#a\<close> and \<open>https://example.com/r#b\<close> have
  the same scheme, host, path and query, and normalize to different forms with different
  hashes.
\<close>

theorem same_canonical_parts_counterexample:
  "map_option canonical_parts (url_parse demo_env ''https://example.com/r#a'')
     = Some (''https'', Some ''example.com'', ''/r'', None)
   \<and> map_option canonical_parts (url_parse demo_env ''https://example.com/r#b'')
     = Some (''https'', Some ''example.com'', ''/r'', None)
   \<and> normalizeUrl demo_env ''https://example.com/r#a'' = Inr ''https://example.com/r#a''
   \<and> normalizeUrl demo_env ''https://example.com/r#b'' = Inr ''https://example.com/r#b''
   \<and> hashUrl demo_env ''https://example.com/r#a''
       = ''655d15fe8d2b9a4f83a5948dfdd60fa00d4e88d3756c734549be2f07acba9a80''
   \<and> hashUrl demo_env ''https://example.com/r#b''
       = ''740c9413c7a8fae109a5b2baf855b9b71dcbcf2eabbdbf779154a00a9c4ed722''"
  by code_simp

section \<open>The job status only moves forward\<close>





section \<open>Falsy fields become null\<close>

lemma or_null_string_cases: "or_null_string v \<noteq> Some []"
  by (cases v) (auto simp: or_null_string_def truthy_string_def)

lemma or_null_number_cases: "or_null_number v \<noteq> Some (Num 0) \<and> or_null_number v \<noteq> Some NaN"
  by (cases v) (auto simp: or_null_number_def truthy_number_def split: number.splits)

lemma extractRaceResults_Inr:
  assumes "extractRaceResults env url w = (Inr data, w')"
  shows "\<exists>p raw. data = coerce_result p raw"
  using assms
  by (auto simp: extractRaceResults_def Let_def split: option.splits prod.splits sum.splits)

text \<open>
  C10. What \<open>extractRaceResults\<close> returns is the platform's fields with every falsy value
  replaced by \<open>null\<close>: no string field of a result is the empty string and no rank is 0
  (or \<open>NaN\<close>); an empty-string capture and a rank of 0 come out as \<open>null\<close>, and a truthy
  value is kept as it is.
\<close>

theorem extractRaceResults_falsy_to_null:
  "(detectPlatform url = Some parser \<and>
      browse env (parser_name parser) url (launches w) = (duration, Inr raw) \<longrightarrow>
      fst (extractRaceResults env url w) = Inr (coerce_result (parser_name parser) raw))
   \<and> (extractRaceResults env url w = (Inr data, w') \<longrightarrow>
        rankOverall data \<noteq> Some (Num 0) \<and> rankCategory data \<noteq> Some (Num 0) \<and>
        rankOverall data \<noteq> Some NaN \<and> rankCategory data \<noteq> Some NaN \<and>
        name data \<noteq> Some [] \<and> category data \<noteq> Some [] \<and> finishTime data \<noteq> Some [] \<and>
        bibNumber data \<noteq> Some [] \<and> pace data \<noteq> Some [])
   \<and> name (coerce_result p (raw\<lparr> name := Some [] \<rparr>)) = None
   \<and> rankOverall (coerce_result p (raw\<lparr> rankOverall := Some (Num 0) \<rparr>)) = None
   \<and> rankCategory (coerce_result p (raw\<lparr> rankCategory := Some (Num 0) \<rparr>)) = None
   \<and> (truthy_number (rankOverall raw) \<longrightarrow> rankOverall (coerce_result p raw) = rankOverall raw)
   \<and> (truthy_string (name raw) \<longrightarrow> name (coerce_result p raw) = name raw)"
proof (intro conjI impI)
  assume "detectPlatform url = Some parser \<and>
      browse env (parser_name parser) url (launches w) = (duration, Inr raw)"
  then show "fst (extractRaceResults env url w) = Inr (coerce_result (parser_name parser) raw)"
    by (simp add: extractRaceResults_def Let_def)
next
  assume "extractRaceResults env url w = (Inr data, w')"
  from extractRaceResults_Inr[OF this] obtain q r where d: "data = coerce_result q r" by blast
  show "rankOverall data \<noteq> Some (Num 0)" "rankCategory data \<noteq> Some (Num 0)"
    "rankOverall data \<noteq> Some NaN" "rankCategory data \<noteq> Some NaN"
    "name data \<noteq> Some []" "category data \<noteq> Some []" "finishTime data \<noteq> Some []"
    "bibNumber data \<noteq> Some []" "pace data \<noteq> Some []"
    unfolding d
    using or_null_string_cases or_null_number_cases by (simp_all add: coerce_result_def)
next
  show "name (coerce_result p (raw\<lparr> name := Some [] \<rparr>)) = None"
    by (simp add: coerce_result_def or_null_string_def truthy_string_def)
  show "rankOverall (coerce_result p (raw\<lparr> rankOverall := Some (Num 0) \<rparr>)) = None"
    by (simp add: coerce_result_def or_null_number_def truthy_number_def)
  show "rankCategory (coerce_result p (raw\<lparr> rankCategory := Some (Num 0) \<rparr>)) = None"
    by (simp add: coerce_result_def or_null_number_def truthy_number_def)
next
  assume "truthy_number (rankOverall raw)"
  then show "rankOverall (coerce_result p raw) = rankOverall raw"
    by (simp add: coerce_result_def or_null_number_def)
next
  assume "truthy_string (name raw)"
  then show "name (coerce_result p raw) = name raw"
    by (simp add: coerce_result_def or_null_string_def)
qed

theorem extractRaceResults_falsy_to_null_witness:
  "rankCategory demo_fields = Some (Num 0) \<and> pace demo_fields = Some []
   \<and> fst (extractRaceResults demo_env ''https://sportstimingsolutions.in/x'' start)
       = Inr \<lparr> name = Some ''Asha Rao'', category = Some ''18 yrs & Above Female'',
               finishTime = Some ''01:58:07'', bibNumber = Some ''2107'',
               rankOverall = Some (Num 41), rankCategory = None, pace = None,
               platform = ''Sports Timing Solutions'' \<rparr>
   \<and> truthy_number (rankOverall demo_fields)
   \<and> rankOverall (coerce_result ''Sports Timing Solutions'' demo_fields) = Some (Num 41)
   \<and> truthy_string (name demo_fields)
   \<and> name (coerce_result ''Sports Timing Solutions'' demo_fields) = Some ''Asha Rao''"
proof -
  let ?u = "''https://sportstimingsolutions.in/x''"
  let ?p = "\<lparr> parser_name = ''Sports Timing Solutions'',
        urlPattern = (\<lambda>url. contains ''sportstimingsolutions.in'' (map to_lower url)) \<rparr>"
  let ?run = "extractRaceResults demo_env ?u start"
  have raw: "rankCategory demo_fields = Some (Num 0)" "pace demo_fields = Some []"
    by (simp_all add: demo_fields_def)
  have det: "detectPlatform ?u = Some ?p"
    by (simp add: detectPlatform_def PARSERS_def to_lower_def)
  have br: "browse demo_env (parser_name ?p) ?u (launches start) = (5000, Inr demo_fields)"
    by (simp add: demo_env_def)
  have tn: "truthy_number (rankOverall demo_fields)"
    by (simp add: demo_fields_def truthy_number_def)
  have ts: "truthy_string (name demo_fields)"
    by (simp add: demo_fields_def truthy_string_def)
  have run: "?run = (fst ?run, snd ?run)" by simp
  note t = extractRaceResults_falsy_to_null
    [of ?u ?p demo_env start 5000 demo_fields "coerce_result (parser_name ?p) demo_fields"
        "snd ?run" "''Sports Timing Solutions''"]
  from t det br have f: "fst ?run = Inr (coerce_result (parser_name ?p) demo_fields)" by blast
  have val: "coerce_result (parser_name ?p) demo_fields
       = \<lparr> name = Some ''Asha Rao'', category = Some ''18 yrs & Above Female'',
               finishTime = Some ''01:58:07'', bibNumber = Some ''2107'',
               rankOverall = Some (Num 41), rankCategory = None, pace = None,
               platform = ''Sports Timing Solutions'' \<rparr>"
    by (simp add: coerce_result_def demo_fields_def or_null_string_def or_null_number_def
        truthy_string_def truthy_number_def)
  from f val have out: "fst ?run
       = Inr \<lparr> name = Some ''Asha Rao'', category = Some ''18 yrs & Above Female'',
               finishTime = Some ''01:58:07'', bibNumber = Some ''2107'',
               rankOverall = Some (Num 41), rankCategory = None, pace = None,
               platform = ''Sports Timing Solutions'' \<rparr>"
    by simp
  from t tn have ro: "rankOverall (coerce_result ''Sports Timing Solutions'' demo_fields)
                       = Some (Num 41)"
    by (simp add: demo_fields_def)
  from t ts have nm: "name (coerce_result ''Sports Timing Solutions'' demo_fields)
                       = Some ''Asha Rao''"
    by (simp add: demo_fields_def)
  show ?thesis by (intro conjI) (rule raw out tn ro ts nm)+
qed

end
